theory Spec2Isabelle
  imports Complex_Main "HOL-Library.Multiset"
begin

section \<open>Tripos practice picker: a shallow embedding of \<^verbatim>\<open>script.js\<close>\<close>

text \<open>
  The script keeps four module-level variables (\<^verbatim>\<open>allQuestionsData\<close>,
  \<^verbatim>\<open>masterDoneList\<close>, \<^verbatim>\<open>sessionDoneList\<close>, \<^verbatim>\<open>githubFileSha\<close>) and a status line.
  They become one record that every handler takes and returns. A JavaScript string is
  a \<^typ>\<open>string\<close> holding its UTF-8 bytes; \<^verbatim>\<open>null\<close> and \<^verbatim>\<open>undefined\<close> of a
  string-valued slot are \<^term>\<open>None\<close>.
\<close>

subsection \<open>JavaScript library functions used by the script\<close>

text \<open>\<^verbatim>\<open>s.includes(t)\<close>: \<open>t\<close> occurs in \<open>s\<close> as a contiguous substring.\<close>

fun String_includes :: "string \<Rightarrow> string \<Rightarrow> bool" where
  "String_includes [] t = (t = [])"
| "String_includes (c # s) t = (take (length t) (c # s) = t \<or> String_includes s t)"

text \<open>
  A \<^verbatim>\<open>Set\<close> of strings is the list of its elements in insertion order:
  \<^verbatim>\<open>add\<close> appends an element that is not yet there, \<^verbatim>\<open>delete\<close> removes it,
  \<^verbatim>\<open>forEach\<close> is a \<^const>\<open>fold\<close> over the list, \<^verbatim>\<open>size\<close> is its length and
  \<^verbatim>\<open>new Set(array)\<close> adds the elements of the array one by one.
\<close>

definition Set_add :: "'a \<Rightarrow> 'a list \<Rightarrow> 'a list" where
  "Set_add x s = (if x \<in> set s then s else s @ [x])"

definition Set_delete :: "'a \<Rightarrow> 'a list \<Rightarrow> 'a list" where
  "Set_delete x s = removeAll x s"

definition Set_has :: "'a list \<Rightarrow> 'a \<Rightarrow> bool" where
  "Set_has s x = (x \<in> set s)"

definition new_Set :: "'a list \<Rightarrow> 'a list" where
  "new_Set xs = fold Set_add xs []"

text \<open>
  \<^verbatim>\<open>btoa(JSON.stringify(ids))\<close> throws an \<^verbatim>\<open>InvalidCharacterError\<close> when the
  text has a character above U+00FF. \<^verbatim>\<open>JSON.stringify\<close> adds ASCII characters only,
  and in UTF-8 a code point above U+00FF is exactly one whose first byte is
  \<open>0xC4\<close> or more.
\<close>

definition btoa_throws :: "string list \<Rightarrow> bool" where
  "btoa_throws ids = list_ex (list_ex (\<lambda>c. (196::nat) \<le> of_char c)) ids"

subsection \<open>State\<close>

text \<open>
  The catalog (\<^verbatim>\<open>allQuestionsData.michaelmas\<close>) is an object of objects of arrays;
  an object is the list of its entries in creation order.
\<close>

type_synonym catalog = "(string \<times> (string \<times> string list) list) list"

datatype message =
    Loading
  | Loaded nat
  | ProgressNotFound
  | ErrorLoading string
  | NoNewQuestions
  | Saving
  | Saved nat nat
  | ErrorSaving string
  | DataNotLoaded

record app_state =
  allQuestionsData :: "catalog option"
  masterDoneList :: "string list"
  sessionDoneList :: "string list"
  githubFileSha :: "string option"
  syncStatus :: "message \<times> bool"

definition updateSyncStatus :: "message \<Rightarrow> bool \<Rightarrow> app_state \<Rightarrow> app_state" where
  "updateSyncStatus m isError st = st\<lparr>syncStatus := (m, isError)\<rparr>"

subsection \<open>The remote store\<close>

text \<open>
  Both requests go to \<^verbatim>\<open>/contents/progress.json\<close>. A \<^verbatim>\<open>PUT\<close> carries the array
  that was serialised and the \<^verbatim>\<open>sha\<close> of the body. The answer of the store is
  either the message of the \<^verbatim>\<open>Error\<close> that \<^verbatim>\<open>githubApiFetch\<close> throws (a rejected
  \<^verbatim>\<open>fetch\<close>, a response that is not ok) or the parsed JSON body. Of a body the
  script reads \<^verbatim>\<open>sha\<close> and \<^verbatim>\<open>content\<close>: the latter is absent, a base64 string
  (given by what \<^verbatim>\<open>new Set(JSON.parse(atob(content)))\<close> makes of it: the message of
  the error thrown, or the array of ids), or an object with a \<^verbatim>\<open>sha\<close> of its own.
\<close>

datatype request = GET | PUT "string list" "string option"

datatype payload = Undefined | Base64 "string + string list" | FileInfo "string option"

record response =
  sha :: "string option"
  content :: payload

record remote =
  githubRepo :: string
  githubPat :: string
  respond :: "request \<Rightarrow> string + response"

text \<open>What a handler leaves behind: the state, the requests it sent, in order, and the
  exception that escaped it, if any.\<close>

record outcome =
  final :: app_state
  sent :: "request list"
  thrown :: "string option"

definition githubApiFetch :: "remote \<Rightarrow> request \<Rightarrow> (string + response) \<times> request list" where
  "githubApiFetch env req =
     (if githubRepo env = [] \<or> githubPat env = []
      then (Inl ''GitHub Repo and Personal Access Token must be provided.'', [])
      else (respond env req, [req]))"

subsection \<open>Load\<close>

definition decode :: "payload \<Rightarrow> string + string list" where
  "decode c = (case c of
       Base64 r \<Rightarrow> r
     | Undefined \<Rightarrow> Inl ''The string to be decoded is not correctly encoded.''
     | FileInfo s \<Rightarrow> Inl ''The string to be decoded is not correctly encoded.'')"

text \<open>The \<^verbatim>\<open>catch\<close> block of \<^verbatim>\<open>loadProgressFromGithub\<close>.\<close>

definition load_catch :: "string \<Rightarrow> app_state \<Rightarrow> app_state" where
  "load_catch msg st =
     (if String_includes msg ''Not Found''
      then (updateSyncStatus ProgressNotFound False st)\<lparr>masterDoneList := new_Set []\<rparr>
      else updateSyncStatus (ErrorLoading msg) True st)"

definition loadProgressFromGithub :: "remote \<Rightarrow> app_state \<Rightarrow> outcome" where
  "loadProgressFromGithub env st0 =
     (let st = updateSyncStatus Loading False st0;
          (r, reqs) = githubApiFetch env GET
      in case r of
           Inl msg \<Rightarrow> \<lparr>final = load_catch msg st, sent = reqs, thrown = None\<rparr>
         | Inr data \<Rightarrow>
             (let st1 = st\<lparr>githubFileSha := sha data\<rparr>
              in case decode (content data) of
                   Inl msg \<Rightarrow> \<lparr>final = load_catch msg st1, sent = reqs, thrown = None\<rparr>
                 | Inr doneItems \<Rightarrow>
                     (let st2 = st1\<lparr>masterDoneList := new_Set doneItems\<rparr>
                      in \<lparr>final = updateSyncStatus (Loaded (length (masterDoneList st2))) False st2,
                          sent = reqs, thrown = None\<rparr>)))"

subsection \<open>Flattening the catalog\<close>

record question =
  id' :: string
  module :: string
  paper :: string
  year :: string

text \<open>
  \<^verbatim>\<open>for (k in obj)\<close> and \<^verbatim>\<open>Object.keys(obj)\<close> visit the keys that are array
  indices (canonical decimal numerals below \<open>2\<^sup>3\<^sup>2 - 1\<close>) first, in ascending order,
  and then the other keys in creation order.
\<close>

definition array_index :: "string \<Rightarrow> nat option" where
  "array_index k =
     (if k \<noteq> [] \<and> list_all (\<lambda>c. (48::nat) \<le> of_char c \<and> of_char c \<le> (57::nat)) k
         \<and> (hd k \<noteq> CHR ''0'' \<or> length k = 1)
      then (let n = fold (\<lambda>c a. 10 * a + (of_char c - 48)) k (0::nat)
            in if n < 4294967295 then Some n else None)
      else None)"

definition own_entries :: "(string \<times> 'v) list \<Rightarrow> (string \<times> 'v) list" where
  "own_entries obj =
     sort_key (\<lambda>e. the (array_index (fst e))) (filter (\<lambda>e. array_index (fst e) \<noteq> None) obj)
     @ filter (\<lambda>e. array_index (fst e) = None) obj"

definition Object_keys :: "(string \<times> 'v) list \<Rightarrow> string list" where
  "Object_keys obj = map fst (own_entries obj)"

definition flatten :: "catalog \<Rightarrow> question list" where
  "flatten modules =
     concat (map (\<lambda>(moduleName, papers).
       concat (map (\<lambda>(paperName, triposes).
         map (\<lambda>year. \<lparr>id' = moduleName @ ''_'' @ paperName @ ''_'' @ year,
                      module = moduleName, paper = paperName, year = year\<rparr>) triposes)
         (own_entries papers)))
       (own_entries modules))"

text \<open>Reading \<^verbatim>\<open>.michaelmas\<close> of \<^verbatim>\<open>null\<close> throws a \<^verbatim>\<open>TypeError\<close>.\<close>

definition getFlattenedQuestions :: "app_state \<Rightarrow> string + question list" where
  "getFlattenedQuestions st =
     (case allQuestionsData st of
        None \<Rightarrow> Inl ''Cannot read properties of null (reading 'michaelmas')''
      | Some modules \<Rightarrow> Inr (flatten modules))"

subsection \<open>Save\<close>

text \<open>The outer \<^verbatim>\<open>catch\<close> block of \<^verbatim>\<open>saveProgressToGithub\<close>: report, then delete
  every element of the session list from the master list.\<close>

definition save_catch :: "string \<Rightarrow> app_state \<Rightarrow> app_state" where
  "save_catch msg st0 =
     (let st = updateSyncStatus (ErrorSaving msg) True st0
      in st\<lparr>masterDoneList := fold Set_delete (sessionDoneList st) (masterDoneList st)\<rparr>)"

text \<open>Lines 198 to 218: the write, and what follows a write that succeeded.\<close>

definition save_write :: "remote \<Rightarrow> string list \<Rightarrow> request list \<Rightarrow> app_state \<Rightarrow> outcome" where
  "save_write env contentToSave reqs0 st =
     (let (r, reqs1) = githubApiFetch env (PUT contentToSave (githubFileSha st))
      in case r of
           Inl msg \<Rightarrow> \<lparr>final = save_catch msg st, sent = reqs0 @ reqs1, thrown = None\<rparr>
         | Inr data \<Rightarrow>
             (case content data of
                Undefined \<Rightarrow>
                  \<lparr>final = save_catch ''Cannot read properties of undefined (reading 'sha')'' st,
                   sent = reqs0 @ reqs1, thrown = None\<rparr>
              | c \<Rightarrow>
                  (let st1 = st\<lparr>githubFileSha := (case c of FileInfo s \<Rightarrow> s | _ \<Rightarrow> None)\<rparr>;
                       st2 = updateSyncStatus
                               (Saved (length (sessionDoneList st1)) (length (masterDoneList st1)))
                               False st1;
                       st3 = st2\<lparr>sessionDoneList := []\<rparr>
                   in case getFlattenedQuestions st3 of
                        Inl msg \<Rightarrow> \<lparr>final = save_catch msg st3, sent = reqs0 @ reqs1, thrown = None\<rparr>
                      | Inr allQuestions \<Rightarrow> \<lparr>final = st3, sent = reqs0 @ reqs1, thrown = None\<rparr>)))"

definition saveProgressToGithub :: "remote \<Rightarrow> app_state \<Rightarrow> outcome" where
  "saveProgressToGithub env st0 =
     (if length (sessionDoneList st0) = 0
      then \<lparr>final = updateSyncStatus NoNewQuestions True st0, sent = [], thrown = None\<rparr>
      else
        (let st1 = updateSyncStatus Saving False st0;
             st2 = st1\<lparr>masterDoneList := fold Set_add (sessionDoneList st1) (masterDoneList st1)\<rparr>;
             contentToSave = masterDoneList st2
         in if btoa_throws contentToSave
            then \<lparr>final = st2, sent = [], thrown = Some ''InvalidCharacterError''\<rparr>
            else
              (let (r, reqs) = githubApiFetch env GET
               in case r of
                    Inr fileData \<Rightarrow>
                      save_write env contentToSave reqs (st2\<lparr>githubFileSha := sha fileData\<rparr>)
                  | Inl msg \<Rightarrow>
                      if \<not> String_includes msg ''Not Found''
                      then \<lparr>final = save_catch msg st2, sent = reqs, thrown = None\<rparr>
                      else save_write env contentToSave reqs (st2\<lparr>githubFileSha := None\<rparr>))))"

subsection \<open>Random numbers and arrays\<close>

text \<open>
  \<^verbatim>\<open>Math.random()\<close> returns a number that is at least 0 and less than 1. The type
  below holds exactly these values, and the source of randomness of a run is the sequence
  of the values returned, indexed by the number of calls made before. The product with a
  length is taken in the reals; the floor of the product of such a value and a positive
  length \<open>n\<close> is an index below \<open>n\<close> in floating point as well.
\<close>

typedef random_value = "{u::real. 0 \<le> u \<and> u < 1}"
  by (rule exI[of _ 0]) simp

setup_lifting type_definition_random_value

text \<open>Two values, and the sequence that returns the same value at every call.\<close>

lift_definition lowest :: random_value is "0" by simp

lift_definition middle :: random_value is "1 / 2" by simp

definition always :: "random_value \<Rightarrow> nat \<Rightarrow> random_value" where
  "always u k = u"

text \<open>\<^verbatim>\<open>Math.floor(Math.random() * n)\<close>.\<close>

definition floor_random :: "random_value \<Rightarrow> nat \<Rightarrow> int" where
  "floor_random u n = \<lfloor>Rep_random_value u * real n\<rfloor>"

text \<open>
  \<^verbatim>\<open>xs.splice(start, 1)\<close> removes at most one element and returns the array of the
  removed elements; the second component is the array afterwards. A negative start counts
  from the end, a start beyond the end removes nothing. \<^verbatim>\<open>removed[0]\<close> of an empty
  array is \<^verbatim>\<open>undefined\<close>, here \<^term>\<open>None\<close>. \<^verbatim>\<open>indexOf\<close> returns \<open>-1\<close> for an
  element that is absent.
\<close>

definition splice :: "'a list \<Rightarrow> int \<Rightarrow> 'a list \<times> 'a list" where
  "splice xs start =
     (let len = int (length xs);
          actualStart = nat (if start < 0 then max (len + start) 0 else min start len)
      in (take 1 (drop actualStart xs), take actualStart xs @ drop (actualStart + 1) xs))"

definition first :: "'a list \<Rightarrow> 'a option" where
  "first xs = (case xs of [] \<Rightarrow> None | x # rest \<Rightarrow> Some x)"

fun indexOf :: "'a list \<Rightarrow> 'a \<Rightarrow> int" where
  "indexOf [] x = - 1"
| "indexOf (y # ys) x =
     (if y = x then 0 else (let i = indexOf ys x in if i < 0 then - 1 else i + 1))"

text \<open>
  The requested count is \<^verbatim>\<open>parseInt(numQuestionsInput.value, 10)\<close>: an integer, or
  \<^verbatim>\<open>NaN\<close> (\<^term>\<open>None\<close>), against which every comparison is false.
\<close>

definition less_num :: "nat \<Rightarrow> int option \<Rightarrow> bool" where
  "less_num c num = (case num of None \<Rightarrow> False | Some n \<Rightarrow> int c < n)"

definition ge_num :: "nat \<Rightarrow> int option \<Rightarrow> bool" where
  "ge_num c num = (case num of None \<Rightarrow> False | Some n \<Rightarrow> n \<le> int c)"

subsection \<open>Fully random selection\<close>

text \<open>Lines 302 to 305. \<open>k\<close> counts the calls of \<^verbatim>\<open>Math.random\<close> made so far.\<close>

function random_loop ::
  "(nat \<Rightarrow> random_value) \<Rightarrow> int option \<Rightarrow> nat \<Rightarrow> question list \<Rightarrow> question option list
     \<Rightarrow> question option list" where
  "random_loop rnd num k available selected =
     (if less_num (length selected) num \<and> length available > 0
      then (let randomIndex = floor_random (rnd k) (length available);
                (removed, rest) = splice available randomIndex
            in random_loop rnd num (k + 1) rest (selected @ [first removed]))
      else selected)"
  by pat_completeness auto
termination
  by (relation "measure (\<lambda>(rnd, num, k, available, selected). nat (the num) - length selected)")
    (auto simp: less_num_def split: option.splits)

declare random_loop.simps [simp del]

subsection \<open>Homogeneous selection\<close>

text \<open>
  The buckets are built by \<^verbatim>\<open>reduce\<close> into an object literal \<^verbatim>\<open>{}\<close>. Reading
  \<^verbatim>\<open>acc[q.module]\<close> finds the properties inherited from \<^verbatim>\<open>Object.prototype\<close> as
  well; all of them are truthy and none has a \<^verbatim>\<open>push\<close>, so for a module of such a
  name no bucket is created and the call of \<^verbatim>\<open>push\<close> throws a \<^verbatim>\<open>TypeError\<close>.
\<close>

definition Object_prototype :: "string list" where
  "Object_prototype =
     [''constructor'', ''__defineGetter__'', ''__defineSetter__'', ''hasOwnProperty'',
      ''__lookupGetter__'', ''__lookupSetter__'', ''isPrototypeOf'', ''propertyIsEnumerable'',
      ''toString'', ''valueOf'', ''__proto__'', ''toLocaleString'']"

definition set_bucket :: "string \<Rightarrow> 'v \<Rightarrow> (string \<times> 'v) list \<Rightarrow> (string \<times> 'v) list" where
  "set_bucket k v obj = map (\<lambda>(k', v'). if k' = k then (k', v) else (k', v')) obj"

definition group_step ::
  "(string \<times> question list) list \<Rightarrow> question \<Rightarrow> string + (string \<times> question list) list" where
  "group_step acc q =
     (case map_of acc (module q) of
        Some bucket \<Rightarrow> Inr (set_bucket (module q) (bucket @ [q]) acc)
      | None \<Rightarrow>
          if module q \<in> set Object_prototype
          then Inl ''acc[q.module].push is not a function''
          else Inr (acc @ [(module q, [q])]))"

fun reduce_groups ::
  "(string \<times> question list) list \<Rightarrow> question list \<Rightarrow> string + (string \<times> question list) list" where
  "reduce_groups acc [] = Inr acc"
| "reduce_groups acc (q # qs) =
     (case group_step acc q of Inl e \<Rightarrow> Inl e | Inr acc' \<Rightarrow> reduce_groups acc' qs)"

text \<open>
  The variables of the rotation: the buckets, the array of the keys still in rotation,
  the questions selected, their count, and the number of calls of \<^verbatim>\<open>Math.random\<close>.
\<close>

record rotation =
  questionsByModule :: "(string \<times> question list) list"
  moduleKeys :: "string list"
  selected :: "question option list"
  count' :: nat
  draws :: nat

text \<open>Lines 287 to 296, after the \<^verbatim>\<open>break\<close> test: one draw from the bucket of \<open>mod'\<close>.\<close>

definition rotation_body :: "(nat \<Rightarrow> random_value) \<Rightarrow> string \<Rightarrow> rotation \<Rightarrow> string + rotation" where
  "rotation_body rnd mod' st =
     (case map_of (questionsByModule st) mod' of
        None \<Rightarrow> Inl ''Cannot read properties of undefined (reading 'length')''
      | Some bucket \<Rightarrow>
          (let q_idx = floor_random (rnd (draws st)) (length bucket);
               (removed, rest) = splice bucket q_idx;
               question = first removed;
               st1 = st\<lparr>questionsByModule := set_bucket mod' rest (questionsByModule st),
                        draws := draws st + 1\<rparr>;
               st2 = (case question of
                        Some q \<Rightarrow> st1\<lparr>selected := selected st1 @ [Some q], count' := count' st1 + 1\<rparr>
                      | None \<Rightarrow> st1);
               st3 = (if length rest = 0
                      then st2\<lparr>moduleKeys :=
                                 snd (splice (moduleKeys st2) (indexOf (moduleKeys st2) mod'))\<rparr>
                      else st2)
           in Inr st3))"

text \<open>
  \<^verbatim>\<open>for (const mod of moduleKeys)\<close> runs the array iterator: it keeps an index,
  compares it with the length the array has at that moment, and reads the element at the
  index. The body removes elements from the array while the iterator is running.
\<close>

function for_moduleKeys ::
  "(nat \<Rightarrow> random_value) \<Rightarrow> int option \<Rightarrow> nat \<Rightarrow> rotation \<Rightarrow> string + rotation" where
  "for_moduleKeys rnd num i st =
     (if i < length (moduleKeys st)
      then (if ge_num (count' st) num then Inr st
            else (case rotation_body rnd (moduleKeys st ! i) st of
                    Inl e \<Rightarrow> Inl e
                  | Inr st' \<Rightarrow> for_moduleKeys rnd num (i + 1) st'))
      else Inr st)"
  by pat_completeness auto
termination
proof (relation "measure (\<lambda>(rnd, num, i, st). length (moduleKeys st) - i)")
  show "wf (measure (\<lambda>(rnd, num, i, st). length (moduleKeys st) - i))" by simp
next
  fix rnd :: "nat \<Rightarrow> random_value" and num :: "int option" and i :: nat and st st' :: rotation
  assume i: "i < length (moduleKeys st)"
    and body: "rotation_body rnd (moduleKeys st ! i) st = Inr st'"
  let ?key = "moduleKeys st ! i"
  have shorter: "length (snd (splice (moduleKeys st) (indexOf (moduleKeys st) ?key)))
                   \<le> length (moduleKeys st)"
    by (simp add: splice_def Let_def)
  have "length (moduleKeys st') \<le> length (moduleKeys st)"
  proof (cases "map_of (questionsByModule st) ?key")
    case None
    with body show ?thesis by (simp add: rotation_body_def)
  next
    case (Some bucket)
    obtain removed rest
      where "splice bucket (floor_random (rnd (draws st)) (length bucket)) = (removed, rest)"
      by (cases "splice bucket (floor_random (rnd (draws st)) (length bucket))")
    with body Some
    have "moduleKeys st' = moduleKeys st
        \<or> moduleKeys st' = snd (splice (moduleKeys st) (indexOf (moduleKeys st) ?key))"
      by (cases "first removed"; cases "rest = []") (auto simp: rotation_body_def Let_def)
    with shorter show ?thesis by auto
  qed
  with i show "((rnd, num, i + 1, st'), (rnd, num, i, st))
                 \<in> measure (\<lambda>(rnd, num, i, st). length (moduleKeys st) - i)"
    by simp
qed

declare for_moduleKeys.simps [simp del]

text \<open>
  Lines 285 to 298. The loop need not end, so the function is partial: \<^term>\<open>None\<close> is
  a run that never returns. \<^verbatim>\<open>available\<close> is not changed inside this loop.
\<close>

partial_function (option) while_count ::
  "(nat \<Rightarrow> random_value) \<Rightarrow> int option \<Rightarrow> question list \<Rightarrow> rotation \<Rightarrow> (string + rotation) option" where
  "while_count rnd num available st =
     (if less_num (count' st) num \<and> length available > 0
      then (case for_moduleKeys rnd num 0 st of
              Inl e \<Rightarrow> Some (Inl e)
            | Inr st' \<Rightarrow> while_count rnd num available st')
      else Some (Inr st))"


subsection \<open>\<^verbatim>\<open>generateQuestions\<close>\<close>

text \<open>Lines 273 to 306: the selection from the candidates that are left.\<close>

definition initial_rotation :: "(string \<times> question list) list \<Rightarrow> rotation" where
  "initial_rotation qbm =
     \<lparr>questionsByModule = qbm, moduleKeys = Object_keys qbm, selected = [], count' = 0, draws = 0\<rparr>"

definition select_questions ::
  "(nat \<Rightarrow> random_value) \<Rightarrow> int option \<Rightarrow> string \<Rightarrow> string \<Rightarrow> question list
     \<Rightarrow> (string + question option list) option" where
  "select_questions rnd num mode moduleFilter available =
     (if length available = 0 then Some (Inr [])
      else if mode = ''homogeneous'' \<and> moduleFilter = ''all''
      then (case reduce_groups [] available of
              Inl e \<Rightarrow> Some (Inl e)
            | Inr qbm \<Rightarrow>
                (case while_count rnd num available (initial_rotation qbm) of
                   None \<Rightarrow> None
                 | Some (Inl e) \<Rightarrow> Some (Inl e)
                 | Some (Inr st) \<Rightarrow> Some (Inr (selected st))))
      else Some (Inr (random_loop rnd num 0 available [])))"

text \<open>What the handler reads from the page.\<close>

record controls =
  numQuestions :: "int option"
  moduleFilter :: string
  paperFilter :: string
  modeRandom :: bool

text \<open>Lines 263 to 271: the completed questions are removed, then the filters apply.\<close>

definition available_questions :: "controls \<Rightarrow> app_state \<Rightarrow> question list \<Rightarrow> question list" where
  "available_questions ui st allAvailable =
     (let available = filter (\<lambda>q. \<not> Set_has (masterDoneList st) (id' q)) allAvailable;
          available = (if moduleFilter ui \<noteq> ''all''
                       then filter (\<lambda>q. module q = moduleFilter ui) available else available);
          available = (if paperFilter ui \<noteq> ''all''
                       then filter (\<lambda>q. paper q = paperFilter ui) available else available)
      in available)"

text \<open>
  The handler returns early when the catalog is not loaded, ends with an exception, or
  hands the selection to \<^verbatim>\<open>renderResults\<close>; \<^term>\<open>None\<close> is a run that never returns.
\<close>

datatype generated = NotLoadedYet app_state | Threw string | Rendered "question option list"

definition generateQuestions ::
  "(nat \<Rightarrow> random_value) \<Rightarrow> controls \<Rightarrow> app_state \<Rightarrow> generated option" where
  "generateQuestions rnd ui st =
     (case allQuestionsData st of
        None \<Rightarrow> Some (NotLoadedYet (updateSyncStatus DataNotLoaded True st))
      | Some modules \<Rightarrow>
          (case getFlattenedQuestions st of
             Inl e \<Rightarrow> Some (Threw e)
           | Inr allAvailable \<Rightarrow>
               (case select_questions rnd (numQuestions ui)
                       (if modeRandom ui then ''random'' else ''homogeneous'')
                       (moduleFilter ui) (available_questions ui st allAvailable) of
                  None \<Rightarrow> None
                | Some (Inl e) \<Rightarrow> Some (Threw e)
                | Some (Inr selected') \<Rightarrow> Some (Rendered selected'))))"

subsection \<open>Notions used to state the properties\<close>

text \<open>The master list after the session list has been merged into it (line 182), and the
  state at that point.\<close>

definition merged :: "app_state \<Rightarrow> string list" where
  "merged st = fold Set_add (sessionDoneList st) (masterDoneList st)"

definition merge_session :: "app_state \<Rightarrow> app_state" where
  "merge_session st = (updateSyncStatus Saving False st)\<lparr>masterDoneList := merged st\<rparr>"

text \<open>
  The re-fetch of the version fails when \<^verbatim>\<open>githubApiFetch\<close> throws an error whose message
  does not contain \<open>Not Found\<close>. Otherwise the write is attempted, with the \<^verbatim>\<open>sha\<close> that
  the re-fetch left, and fails when \<^verbatim>\<open>githubApiFetch\<close> throws.
\<close>

definition refetch_fails :: "remote \<Rightarrow> bool" where
  "refetch_fails env =
     (case fst (githubApiFetch env GET) of
        Inl msg \<Rightarrow> \<not> String_includes msg ''Not Found''
      | Inr fileData \<Rightarrow> False)"

definition refetched_sha :: "remote \<Rightarrow> string option" where
  "refetched_sha env =
     (case fst (githubApiFetch env GET) of Inl msg \<Rightarrow> None | Inr fileData \<Rightarrow> sha fileData)"

definition write_fails :: "remote \<Rightarrow> string list \<Rightarrow> bool" where
  "write_fails env contentToSave =
     (\<not> refetch_fails env \<and> isl (fst (githubApiFetch env (PUT contentToSave (refetched_sha env)))))"

text \<open>What a later call of Save can observe of an outcome: the two lists, the requests sent
  and the exception.\<close>

definition progress :: "outcome \<Rightarrow> string list \<times> string list \<times> request list \<times> string option" where
  "progress out = (masterDoneList (final out), sessionDoneList (final out), sent out, thrown out)"

text \<open>The count that a request asks for: none for \<^verbatim>\<open>NaN\<close> and for a negative number.\<close>

definition requested :: "int option \<Rightarrow> nat" where
  "requested num = (case num of None \<Rightarrow> 0 | Some n \<Rightarrow> nat n)"

text \<open>
  A number of complete passes of the \<^verbatim>\<open>for\<close> loop over the rotation, one after the
  other; how many of the selected questions come from a module, and how many questions its
  bucket still holds.
\<close>

fun rotation_passes ::
  "(nat \<Rightarrow> random_value) \<Rightarrow> int option \<Rightarrow> nat \<Rightarrow> rotation \<Rightarrow> string + rotation" where
  "rotation_passes rnd num 0 st = Inr st"
| "rotation_passes rnd num (Suc k) st =
     (case for_moduleKeys rnd num 0 st of
        Inl e \<Rightarrow> Inl e
      | Inr st' \<Rightarrow> rotation_passes rnd num k st')"

definition after_passes ::
  "(nat \<Rightarrow> random_value) \<Rightarrow> int option \<Rightarrow> nat \<Rightarrow> question list \<Rightarrow> string + rotation" where
  "after_passes rnd num k pool =
     (case reduce_groups [] pool of
        Inl e \<Rightarrow> Inl e
      | Inr qbm \<Rightarrow> rotation_passes rnd num k (initial_rotation qbm))"

definition drawn_from :: "string \<Rightarrow> rotation \<Rightarrow> nat" where
  "drawn_from m st = length (filter (\<lambda>q. map_option module q = Some m) (selected st))"

definition left_in :: "string \<Rightarrow> rotation \<Rightarrow> nat" where
  "left_in m st = (case map_of (questionsByModule st) m of None \<Rightarrow> 0 | Some bucket \<Rightarrow> length bucket)"

definition modules_of :: "(string + question option list) option \<Rightarrow> string list" where
  "modules_of r =
     (case r of Some (Inr sel) \<Rightarrow> map (\<lambda>q. case q of None \<Rightarrow> ''undefined'' | Some q' \<Rightarrow> module q') sel
      | _ \<Rightarrow> [])"

text \<open>
  What the rotation keeps true of its variables, for the candidates \<open>pool\<close> it started
  from: the buckets have distinct keys, the rotation holds exactly the keys of the buckets
  that are not empty, each once, the selected questions together with the questions left
  in the buckets are the candidates, and the count is the number selected.
\<close>

definition grouped :: "(string \<times> question list) list \<Rightarrow> bool" where
  "grouped obj \<longleftrightarrow> distinct (map fst obj) \<and> [] \<notin> snd ` set obj"

definition rotation_inv :: "question list \<Rightarrow> rotation \<Rightarrow> bool" where
  "rotation_inv pool st \<longleftrightarrow>
     distinct (map fst (questionsByModule st))
     \<and> distinct (moduleKeys st)
     \<and> set (moduleKeys st) = {m. \<exists>b. map_of (questionsByModule st) m = Some b \<and> b \<noteq> []}
     \<and> (\<exists>qs. selected st = map Some qs
              \<and> mset qs + mset (concat (map snd (questionsByModule st))) = mset pool)
     \<and> count' st = length (selected st)"

subsection \<open>Example inputs\<close>

text \<open>A store that holds version \<open>v1\<close> of the file and rejects every write, and a store
  without the file that accepts the write.\<close>

definition conflict_store :: remote where
  "conflict_store =
     \<lparr>githubRepo = ''user/progress'', githubPat = ''token'',
      respond = (\<lambda>req. case req of
                   GET \<Rightarrow> Inr \<lparr>sha = Some ''v1'', content = Base64 (Inr [''Maths_P1_2019''])\<rparr>
                 | PUT c s \<Rightarrow> Inl ''GitHub API Error: progress.json does not match v1'')\<rparr>"

definition empty_store :: remote where
  "empty_store =
     \<lparr>githubRepo = ''user/progress'', githubPat = ''token'',
      respond = (\<lambda>req. case req of
                   GET \<Rightarrow> Inl ''GitHub API Error: Not Found''
                 | PUT c s \<Rightarrow> Inr \<lparr>sha = None, content = FileInfo (Some ''v2'')\<rparr>)\<rparr>"

definition session_state :: "string list \<Rightarrow> string list \<Rightarrow> app_state" where
  "session_state master delta =
     \<lparr>allQuestionsData = None, masterDoneList = master, sessionDoneList = delta,
      githubFileSha = Some ''v0'', syncStatus = (Loaded (length master), False)\<rparr>"

text \<open>A catalog in which one module runs out in the first pass of the rotation, a
  catalog of three modules of two questions, a catalog in which two entries give the same
  id, and a catalog whose module has the name of a property of \<^verbatim>\<open>Object.prototype\<close>.\<close>

definition uneven_catalog :: catalog where
  "uneven_catalog =
     [(''Algebra'', [(''Paper1'', [''2019'', ''2020''])]),
      (''Botany'', [(''Paper1'', [''2019''])]),
      (''Chemistry'', [(''Paper1'', [''2019'', ''2020''])])]"

definition even_catalog :: catalog where
  "even_catalog =
     [(''Algebra'', [(''Paper1'', [''2019'', ''2020''])]),
      (''Botany'', [(''Paper1'', [''2019'', ''2020''])]),
      (''Chemistry'', [(''Paper1'', [''2019'', ''2020''])])]"

definition colliding_catalog :: catalog where
  "colliding_catalog =
     [(''Linear_Algebra'', [(''P1'', [''2020''])]),
      (''Linear'', [(''Algebra_P1'', [''2020''])])]"


text \<open>The state after the catalog has been fetched and the progress loaded.\<close>

definition catalog_state :: "catalog \<Rightarrow> string list \<Rightarrow> app_state" where
  "catalog_state modules master =
     \<lparr>allQuestionsData = Some modules, masterDoneList = master, sessionDoneList = [],
      githubFileSha = Some ''v1'', syncStatus = (Loaded (length master), False)\<rparr>"

definition homogeneous_request :: "int \<Rightarrow> controls" where
  "homogeneous_request n =
     \<lparr>numQuestions = Some n, moduleFilter = ''all'', paperFilter = ''all'', modeRandom = False\<rparr>"

definition fully_random_request :: "int \<Rightarrow> controls" where
  "fully_random_request n =
     \<lparr>numQuestions = Some n, moduleFilter = ''all'', paperFilter = ''all'', modeRandom = True\<rparr>"

section \<open>The save and load protocol\<close>

lemma set_fold_Set_add: "set (fold Set_add xs s) = set s \<union> set xs"
  by (induction xs arbitrary: s) (auto simp: Set_add_def)

lemma fold_Set_delete: "fold Set_delete xs s = filter (\<lambda>y. y \<notin> set xs) s"
proof (induction xs arbitrary: s)
  case Nil
  show ?case by simp
next
  case (Cons x xs)
  have "fold Set_delete (x # xs) s = filter (\<lambda>y. y \<notin> set xs) (removeAll x s)"
    by (simp add: Cons.IH Set_delete_def)
  also have "\<dots> = filter (\<lambda>y. y \<notin> set (x # xs)) s"
    by (induction s) auto
  finally show ?case .
qed

lemma fold_Set_add_extends: "\<exists>ys. fold Set_add xs s = s @ ys \<and> set ys \<subseteq> set xs"
proof (induction xs arbitrary: s)
  case Nil
  show ?case by simp
next
  case (Cons x xs)
  obtain ys where ys: "fold Set_add xs (Set_add x s) = Set_add x s @ ys" "set ys \<subseteq> set xs"
    using Cons.IH by blast
  show ?case
  proof (cases "x \<in> set s")
    case True
    then have "Set_add x s = s" by (simp add: Set_add_def)
    with ys have "fold Set_add (x # xs) s = s @ ys" by simp
    with ys show ?thesis by auto
  next
    case False
    then have "Set_add x s = s @ [x]" by (simp add: Set_add_def)
    with ys have "fold Set_add (x # xs) s = s @ (x # ys)" by simp
    with ys show ?thesis by auto
  qed
qed

lemma rollback_filter:
  "fold Set_delete xs (fold Set_add xs s) = filter (\<lambda>y. y \<notin> set xs) s"
proof -
  obtain ys where ys: "fold Set_add xs s = s @ ys" and sub: "set ys \<subseteq> set xs"
    using fold_Set_add_extends[of xs s] by blast
  have "filter (\<lambda>y. y \<notin> set xs) ys = []"
    using sub by (auto simp: filter_empty_conv)
  then have "filter (\<lambda>y. y \<notin> set xs) (s @ ys) = filter (\<lambda>y. y \<notin> set xs) s"
    by simp
  then show ?thesis
    unfolding fold_Set_delete ys .
qed

lemma filter_notin_id: "filter (\<lambda>y. y \<notin> A) s = s \<longleftrightarrow> A \<inter> set s = {}"
  by (auto simp: filter_id_conv)

lemma save_catch_fields:
  "masterDoneList (save_catch msg st) = fold Set_delete (sessionDoneList st) (masterDoneList st)"
  "sessionDoneList (save_catch msg st) = sessionDoneList st"
  "allQuestionsData (save_catch msg st) = allQuestionsData st"
  "githubFileSha (save_catch msg st) = githubFileSha st"
  "syncStatus (save_catch msg st) = (ErrorSaving msg, True)"
  by (simp_all add: save_catch_def updateSyncStatus_def Let_def)

lemma save_write_fails:
  assumes "fst (githubApiFetch env (PUT c (githubFileSha st))) = Inl msg"
  shows "save_write env c reqs0 st =
           \<lparr>final = save_catch msg st,
            sent = reqs0 @ snd (githubApiFetch env (PUT c (githubFileSha st))), thrown = None\<rparr>"
proof -
  obtain l where "githubApiFetch env (PUT c (githubFileSha st)) = (Inl msg, l)"
    using assms by (cases "githubApiFetch env (PUT c (githubFileSha st))") simp
  then show ?thesis by (simp add: save_write_def)
qed

lemma saving_fields:
  "masterDoneList (updateSyncStatus m b st) = masterDoneList st"
  "sessionDoneList (updateSyncStatus m b st) = sessionDoneList st"
  "allQuestionsData (updateSyncStatus m b st) = allQuestionsData st"
  "githubFileSha (updateSyncStatus m b st) = githubFileSha st"
  "syncStatus (updateSyncStatus m b st) = (m, b)"
  by (simp_all add: updateSyncStatus_def)

lemma save_refetch_fails:
  assumes "sessionDoneList st \<noteq> []" and "\<not> btoa_throws (merged st)"
    and "githubApiFetch env GET = (Inl msg, reqs)" and "\<not> String_includes msg ''Not Found''"
  shows "saveProgressToGithub env st =
           \<lparr>final = save_catch msg (merge_session st), sent = reqs, thrown = None\<rparr>"
  using assms
  by (simp add: saveProgressToGithub_def merged_def merge_session_def saving_fields Let_def)

lemma save_refetch_not_found:
  assumes "sessionDoneList st \<noteq> []" and "\<not> btoa_throws (merged st)"
    and "githubApiFetch env GET = (Inl msg, reqs)" and "String_includes msg ''Not Found''"
  shows "saveProgressToGithub env st =
           save_write env (merged st) reqs ((merge_session st)\<lparr>githubFileSha := None\<rparr>)"
  using assms
  by (simp add: saveProgressToGithub_def merged_def merge_session_def saving_fields Let_def)

lemma save_refetch_ok:
  assumes "sessionDoneList st \<noteq> []" and "\<not> btoa_throws (merged st)"
    and "githubApiFetch env GET = (Inr fileData, reqs)"
  shows "saveProgressToGithub env st =
           save_write env (merged st) reqs ((merge_session st)\<lparr>githubFileSha := sha fileData\<rparr>)"
  using assms
  by (simp add: saveProgressToGithub_def merged_def merge_session_def saving_fields Let_def)

lemma save_rolls_back:
  assumes "sessionDoneList st \<noteq> []"
    and "\<not> btoa_throws (merged st)"
    and "refetch_fails env \<or> write_fails env (merged st)"
  shows "\<exists>msg s. final (saveProgressToGithub env st)
                    = save_catch msg ((merge_session st)\<lparr>githubFileSha := s\<rparr>)"
proof -
  obtain r reqs where get: "githubApiFetch env GET = (r, reqs)"
    by (cases "githubApiFetch env GET")
  show ?thesis
  proof (cases r)
    case (Inl msg)
    show ?thesis
    proof (cases "String_includes msg ''Not Found''")
      case False
      have "final (saveProgressToGithub env st)
              = save_catch msg ((merge_session st)\<lparr>githubFileSha := githubFileSha (merge_session st)\<rparr>)"
        using save_refetch_fails[OF assms(1,2) get[unfolded Inl] False] by simp
      then show ?thesis by blast
    next
      case True
      with get Inl assms(3)
      obtain e where "fst (githubApiFetch env (PUT (merged st) None)) = Inl e"
        by (auto simp: refetch_fails_def write_fails_def refetched_sha_def isl_def)
      then have "final (saveProgressToGithub env st)
                   = save_catch e ((merge_session st)\<lparr>githubFileSha := None\<rparr>)"
        using save_refetch_not_found[OF assms(1,2) get[unfolded Inl] True]
        by (simp add: save_write_fails)
      then show ?thesis by blast
    qed
  next
    case (Inr fileData)
    with get assms(3)
    obtain e where "fst (githubApiFetch env (PUT (merged st) (sha fileData))) = Inl e"
      by (auto simp: refetch_fails_def write_fails_def refetched_sha_def isl_def)
    then have "final (saveProgressToGithub env st)
                 = save_catch e ((merge_session st)\<lparr>githubFileSha := sha fileData\<rparr>)"
      using save_refetch_ok[OF assms(1,2) get[unfolded Inr]]
      by (simp add: save_write_fails)
    then show ?thesis by blast
  qed
qed

lemma rolled_back_fields:
  "masterDoneList (save_catch msg ((merge_session st)\<lparr>githubFileSha := s\<rparr>))
     = filter (\<lambda>y. y \<notin> set (sessionDoneList st)) (masterDoneList st)"
  "sessionDoneList (save_catch msg ((merge_session st)\<lparr>githubFileSha := s\<rparr>)) = sessionDoneList st"
  "allQuestionsData (save_catch msg ((merge_session st)\<lparr>githubFileSha := s\<rparr>)) = allQuestionsData st"
  by (simp_all add: save_catch_fields merge_session_def saving_fields merged_def rollback_filter)

lemma app_state_eqI:
  fixes a b :: app_state
  assumes "allQuestionsData a = allQuestionsData b" "masterDoneList a = masterDoneList b"
    "sessionDoneList a = sessionDoneList b" "githubFileSha a = githubFileSha b"
    "syncStatus a = syncStatus b"
  shows "a = b"
  using assms by simp

lemma merge_session_ignores:
  "merged (st\<lparr>githubFileSha := a, syncStatus := b\<rparr>) = merged st"
  "(merge_session (st\<lparr>githubFileSha := a, syncStatus := b\<rparr>))\<lparr>githubFileSha := x\<rparr>
     = (merge_session st)\<lparr>githubFileSha := x\<rparr>"
  by (simp_all add: merge_session_def updateSyncStatus_def merged_def)

lemma save_ignores_token_and_status:
  "progress (saveProgressToGithub env (st\<lparr>githubFileSha := a, syncStatus := b\<rparr>))
     = progress (saveProgressToGithub env st)"
proof (cases "sessionDoneList st = []")
  case True
  then show ?thesis
    by (simp add: saveProgressToGithub_def progress_def updateSyncStatus_def)
next
  case ne: False
  let ?st' = "st\<lparr>githubFileSha := a, syncStatus := b\<rparr>"
  have ne': "sessionDoneList ?st' \<noteq> []" using ne by simp
  show ?thesis
  proof (cases "btoa_throws (merged st)")
    case True
    then show ?thesis using ne
      by (simp add: saveProgressToGithub_def progress_def updateSyncStatus_def merged_def Let_def)
  next
    case enc: False
    have enc': "\<not> btoa_throws (merged ?st')" using enc by (simp add: merge_session_ignores)
    obtain r reqs where get: "githubApiFetch env GET = (r, reqs)"
      by (cases "githubApiFetch env GET")
    show ?thesis
    proof (cases r)
      case (Inl msg)
      show ?thesis
      proof (cases "String_includes msg ''Not Found''")
        case False
        show ?thesis
          unfolding save_refetch_fails[OF ne enc get[unfolded Inl] False]
            save_refetch_fails[OF ne' enc' get[unfolded Inl] False]
          by (simp add: progress_def save_catch_fields merge_session_def saving_fields merged_def)
      next
        case True
        show ?thesis
          unfolding save_refetch_not_found[OF ne enc get[unfolded Inl] True]
            save_refetch_not_found[OF ne' enc' get[unfolded Inl] True]
          by (simp add: merge_session_ignores)
      qed
    next
      case (Inr fileData)
      show ?thesis
        unfolding save_refetch_ok[OF ne enc get[unfolded Inr]]
          save_refetch_ok[OF ne' enc' get[unfolded Inr]]
        by (simp add: merge_session_ignores)
    qed
  qed
qed

lemma save_write_succeeds:
  assumes "fst (githubApiFetch env (PUT c (githubFileSha st))) = Inr data"
    and "content data = FileInfo s"
  shows "masterDoneList (final (save_write env c reqs0 st)) = masterDoneList st"
    and "sessionDoneList (final (save_write env c reqs0 st)) = []"
    and "githubFileSha (final (save_write env c reqs0 st)) = s"
proof -
  obtain l where put: "githubApiFetch env (PUT c (githubFileSha st)) = (Inr data, l)"
    using assms(1) by (cases "githubApiFetch env (PUT c (githubFileSha st))") simp
  have fields: "masterDoneList (final (save_write env c reqs0 st)) = masterDoneList st
      \<and> sessionDoneList (final (save_write env c reqs0 st)) = []
      \<and> githubFileSha (final (save_write env c reqs0 st)) = s"
    using put assms(2)
    by (simp add: save_write_def Let_def save_catch_fields saving_fields split: sum.splits)
  show "masterDoneList (final (save_write env c reqs0 st)) = masterDoneList st"
    and "sessionDoneList (final (save_write env c reqs0 st)) = []"
    and "githubFileSha (final (save_write env c reqs0 st)) = s"
    using fields by simp_all
qed

text \<open>
  The half of the save protocol that holds as documented: when the re-fetch does not fail
  and the write returns the description of the new file, the master list is the merged
  list, the session list is empty and the version is the one the write returned.
\<close>

lemma successful_save:
  assumes "sessionDoneList st \<noteq> []"
    and "\<not> btoa_throws (merged st)"
    and "\<not> refetch_fails env"
    and "fst (githubApiFetch env (PUT (merged st) (refetched_sha env))) = Inr data"
    and "content data = FileInfo s"
  shows "masterDoneList (final (saveProgressToGithub env st)) = merged st
       \<and> set (masterDoneList (final (saveProgressToGithub env st)))
            = set (masterDoneList st) \<union> set (sessionDoneList st)
       \<and> sessionDoneList (final (saveProgressToGithub env st)) = []
       \<and> githubFileSha (final (saveProgressToGithub env st)) = s"
proof -
  obtain r reqs where get: "githubApiFetch env GET = (r, reqs)"
    by (cases "githubApiFetch env GET")
  let ?st2 = "(merge_session st)\<lparr>githubFileSha := refetched_sha env\<rparr>"
  have "saveProgressToGithub env st = save_write env (merged st) reqs ?st2"
  proof (cases r)
    case (Inl msg)
    with get assms(3) have "String_includes msg ''Not Found''"
      by (simp add: refetch_fails_def)
    with get Inl show ?thesis
      using save_refetch_not_found[OF assms(1,2), of env msg reqs]
      by (simp add: refetched_sha_def)
  next
    case (Inr fileData)
    with get show ?thesis
      using save_refetch_ok[OF assms(1,2), of env fileData reqs]
      by (simp add: refetched_sha_def)
  qed
  moreover have "fst (githubApiFetch env (PUT (merged st) (githubFileSha ?st2))) = Inr data"
    using assms(4) by simp
  moreover have "masterDoneList ?st2 = merged st"
    by (simp add: merge_session_def)
  ultimately show ?thesis
    using save_write_succeeds[of env "merged st" ?st2 data s reqs, OF _ assms(5)]
    by (simp add: merged_def set_fold_Set_add)
qed

text \<open>
  The two halves of the load protocol that hold as documented: an error whose message
  contains \<open>Not Found\<close> empties the master list and is reported without the error flag;
  any other error of the fetch leaves the lists and the version as they were.
\<close>

lemma load_not_found:
  assumes "fst (githubApiFetch env GET) = Inl msg" and "String_includes msg ''Not Found''"
  shows "masterDoneList (final (loadProgressFromGithub env st)) = []
       \<and> githubFileSha (final (loadProgressFromGithub env st)) = githubFileSha st
       \<and> syncStatus (final (loadProgressFromGithub env st)) = (ProgressNotFound, False)"
proof -
  obtain l where "githubApiFetch env GET = (Inl msg, l)"
    using assms(1) by (cases "githubApiFetch env GET") simp
  with assms(2) show ?thesis
    by (simp add: loadProgressFromGithub_def load_catch_def updateSyncStatus_def new_Set_def)
qed

lemma load_other_error:
  assumes "fst (githubApiFetch env GET) = Inl msg" and "\<not> String_includes msg ''Not Found''"
  shows "masterDoneList (final (loadProgressFromGithub env st)) = masterDoneList st
       \<and> sessionDoneList (final (loadProgressFromGithub env st)) = sessionDoneList st
       \<and> githubFileSha (final (loadProgressFromGithub env st)) = githubFileSha st
       \<and> syncStatus (final (loadProgressFromGithub env st)) = (ErrorLoading msg, True)"
proof -
  obtain l where "githubApiFetch env GET = (Inl msg, l)"
    using assms(1) by (cases "githubApiFetch env GET") simp
  with assms(2) show ?thesis
    by (simp add: loadProgressFromGithub_def load_catch_def updateSyncStatus_def)
qed

lemma conflict_store_fails:
  "write_fails conflict_store c"
  by (simp add: write_fails_def refetch_fails_def refetched_sha_def githubApiFetch_def conflict_store_def)

text \<open>
  Claim C1. Save of a session list that is not empty and shares no id with the master
  list, where the merged list can be encoded, so that the requests are made: when the
  re-fetch of the version fails with an error other than Not Found, or the write fails
  (a version conflict is one such failure), the master list after the call is the list
  before the call, element for element, and the session list is unchanged.
  A later Save from the state that is left sends the same requests and ends with the same
  lists as it would from the state before the failed call, whatever the store answers.
\<close>

theorem failed_save_restores_master:
  assumes "sessionDoneList st \<noteq> []"
    and "set (sessionDoneList st) \<inter> set (masterDoneList st) = {}"
    and "\<not> btoa_throws (merged st)"
    and "refetch_fails env \<or> write_fails env (merged st)"
  shows "masterDoneList (final (saveProgressToGithub env st)) = masterDoneList st
       \<and> sessionDoneList (final (saveProgressToGithub env st)) = sessionDoneList st
       \<and> (\<forall>env'. progress (saveProgressToGithub env' (final (saveProgressToGithub env st)))
                  = progress (saveProgressToGithub env' st))"
proof -
  let ?out = "final (saveProgressToGithub env st)"
  obtain msg s where out: "?out = save_catch msg ((merge_session st)\<lparr>githubFileSha := s\<rparr>)"
    using save_rolls_back[OF assms(1,3,4)] by blast
  have keep: "filter (\<lambda>y. y \<notin> set (sessionDoneList st)) (masterDoneList st) = masterDoneList st"
    using assms(2) by (simp add: filter_notin_id)
  have m: "masterDoneList ?out = masterDoneList st"
    unfolding out by (simp add: rolled_back_fields keep)
  have d: "sessionDoneList ?out = sessionDoneList st"
    unfolding out by (simp add: rolled_back_fields)
  have q: "allQuestionsData ?out = allQuestionsData st"
    unfolding out by (simp add: rolled_back_fields)
  have "?out = st\<lparr>githubFileSha := githubFileSha ?out, syncStatus := syncStatus ?out\<rparr>"
    by (rule app_state_eqI) (simp_all add: m d q)
  then have "\<And>env'. progress (saveProgressToGithub env' ?out) = progress (saveProgressToGithub env' st)"
    using save_ignores_token_and_status[where st = st and a = "githubFileSha ?out" and b = "syncStatus ?out"] by simp
  with m d show ?thesis by blast
qed

theorem failed_save_restores_master_witness:
  "sessionDoneList (session_state [''Maths_P1_2019''] [''Maths_P1_2020'']) \<noteq> []
   \<and> set (sessionDoneList (session_state [''Maths_P1_2019''] [''Maths_P1_2020'']))
       \<inter> set (masterDoneList (session_state [''Maths_P1_2019''] [''Maths_P1_2020''])) = {}
   \<and> \<not> btoa_throws (merged (session_state [''Maths_P1_2019''] [''Maths_P1_2020'']))
   \<and> write_fails conflict_store (merged (session_state [''Maths_P1_2019''] [''Maths_P1_2020'']))
   \<and> masterDoneList (final (saveProgressToGithub conflict_store
         (session_state [''Maths_P1_2019''] [''Maths_P1_2020'']))) = [''Maths_P1_2019'']
   \<and> sessionDoneList (final (saveProgressToGithub conflict_store
         (session_state [''Maths_P1_2019''] [''Maths_P1_2020'']))) = [''Maths_P1_2020'']"
proof -
  let ?st = "session_state [''Maths_P1_2019''] [''Maths_P1_2020'']"
  have h1: "sessionDoneList ?st \<noteq> []" by (simp add: session_state_def)
  have h2: "set (sessionDoneList ?st) \<inter> set (masterDoneList ?st) = {}"
    by (simp add: session_state_def)
  have h3: "\<not> btoa_throws (merged ?st)"
    by (simp add: session_state_def merged_def Set_add_def btoa_throws_def)
  have h4: "write_fails conflict_store (merged ?st)" by (rule conflict_store_fails)
  have h4': "refetch_fails conflict_store \<or> write_fails conflict_store (merged ?st)"
    using h4 by simp
  have "masterDoneList ?st = [''Maths_P1_2019'']" "sessionDoneList ?st = [''Maths_P1_2020'']"
    by (simp_all add: session_state_def)
  with failed_save_restores_master[OF h1 h2 h3 h4'] h1 h2 h3 h4 show ?thesis by simp
qed

text \<open>
  Claim C10. The rollback deletes the ids of the session list from the master list: after
  a Save that failed at the re-fetch or at the write, the master list is the list before
  the call without the ids that are in the session list. An id that was in both is gone,
  and the master list is the one before the call exactly when the two lists share no id.
\<close>

theorem failed_save_deletes_shared_ids:
  assumes "sessionDoneList st \<noteq> []"
    and "\<not> btoa_throws (merged st)"
    and "refetch_fails env \<or> write_fails env (merged st)"
  shows "masterDoneList (final (saveProgressToGithub env st))
           = filter (\<lambda>y. y \<notin> set (sessionDoneList st)) (masterDoneList st)
       \<and> set (masterDoneList (final (saveProgressToGithub env st)))
           = set (masterDoneList st) - set (sessionDoneList st)
       \<and> (masterDoneList (final (saveProgressToGithub env st)) = masterDoneList st
            \<longleftrightarrow> set (sessionDoneList st) \<inter> set (masterDoneList st) = {})"
proof -
  obtain msg s where
    out: "final (saveProgressToGithub env st) = save_catch msg ((merge_session st)\<lparr>githubFileSha := s\<rparr>)"
    using save_rolls_back[OF assms] by blast
  have m: "masterDoneList (final (saveProgressToGithub env st))
             = filter (\<lambda>y. y \<notin> set (sessionDoneList st)) (masterDoneList st)"
    unfolding out by (simp add: rolled_back_fields)
  have "set (filter (\<lambda>y. y \<notin> set (sessionDoneList st)) (masterDoneList st))
          = set (masterDoneList st) - set (sessionDoneList st)"
    by auto
  with m show ?thesis by (simp add: filter_notin_id)
qed

theorem failed_save_deletes_shared_ids_witness:
  "sessionDoneList (session_state [''Maths_P1_2019'', ''Maths_P2_2019''] [''Maths_P2_2019'']) \<noteq> []
   \<and> \<not> btoa_throws (merged (session_state [''Maths_P1_2019'', ''Maths_P2_2019''] [''Maths_P2_2019'']))
   \<and> write_fails conflict_store
        (merged (session_state [''Maths_P1_2019'', ''Maths_P2_2019''] [''Maths_P2_2019'']))
   \<and> masterDoneList (final (saveProgressToGithub conflict_store
         (session_state [''Maths_P1_2019'', ''Maths_P2_2019''] [''Maths_P2_2019''])))
       = [''Maths_P1_2019'']"
proof -
  let ?st = "session_state [''Maths_P1_2019'', ''Maths_P2_2019''] [''Maths_P2_2019'']"
  have h1: "sessionDoneList ?st \<noteq> []" by (simp add: session_state_def)
  have h3: "\<not> btoa_throws (merged ?st)"
    by (simp add: session_state_def merged_def Set_add_def btoa_throws_def)
  have h4: "write_fails conflict_store (merged ?st)" by (rule conflict_store_fails)
  have h4': "refetch_fails conflict_store \<or> write_fails conflict_store (merged ?st)"
    using h4 by simp
  have "filter (\<lambda>y. y \<notin> set (sessionDoneList ?st)) (masterDoneList ?st) = [''Maths_P1_2019'']"
    by (simp add: session_state_def)
  with failed_save_deletes_shared_ids[OF h1 h3 h4'] h1 h3 h4 show ?thesis by simp
qed

text \<open>
  Claim C7. Save with an empty session list sends no request, throws nothing, and leaves
  the master list, the session list and the version as they were: only the status line
  changes.
\<close>

theorem save_nothing_is_noop:
  assumes "sessionDoneList st = []"
  shows "sent (saveProgressToGithub env st) = []
       \<and> thrown (saveProgressToGithub env st) = None
       \<and> final (saveProgressToGithub env st) = st\<lparr>syncStatus := (NoNewQuestions, True)\<rparr>
       \<and> masterDoneList (final (saveProgressToGithub env st)) = masterDoneList st
       \<and> sessionDoneList (final (saveProgressToGithub env st)) = sessionDoneList st
       \<and> githubFileSha (final (saveProgressToGithub env st)) = githubFileSha st"
  using assms by (simp add: saveProgressToGithub_def updateSyncStatus_def)

theorem save_nothing_is_noop_witness:
  "sessionDoneList (session_state [''Maths_P1_2019''] []) = []
   \<and> sent (saveProgressToGithub conflict_store (session_state [''Maths_P1_2019''] [])) = []
   \<and> masterDoneList (final (saveProgressToGithub conflict_store (session_state [''Maths_P1_2019''] [])))
        = [''Maths_P1_2019'']
   \<and> githubFileSha (final (saveProgressToGithub conflict_store (session_state [''Maths_P1_2019''] [])))
        = Some ''v0''"
proof -
  have h: "sessionDoneList (session_state [''Maths_P1_2019''] []) = []"
    by (simp add: session_state_def)
  have "masterDoneList (session_state [''Maths_P1_2019''] []) = [''Maths_P1_2019'']"
    "githubFileSha (session_state [''Maths_P1_2019''] []) = Some ''v0''"
    by (simp_all add: session_state_def)
  with save_nothing_is_noop[OF h, of conflict_store] h show ?thesis by simp
qed

text \<open>
  Claim C6, at an input where the code departs from it. The id \<open>Maths_P1_2019\<close> is in the
  master list and in the session list; the store rejects the write. The failed Save
  leaves the master list empty: the id that was completed before the call is lost.
\<close>

theorem failed_save_forgets_completed_id:
  "masterDoneList (session_state [''Maths_P1_2019''] [''Maths_P1_2019'']) = [''Maths_P1_2019'']
   \<and> masterDoneList (final (saveProgressToGithub conflict_store
        (session_state [''Maths_P1_2019''] [''Maths_P1_2019'']))) = []
   \<and> syncStatus (final (saveProgressToGithub conflict_store
        (session_state [''Maths_P1_2019''] [''Maths_P1_2019'']))) =
        (ErrorSaving ''GitHub API Error: progress.json does not match v1'', True)"
  by (simp add: session_state_def saveProgressToGithub_def save_write_def save_catch_def
      updateSyncStatus_def githubApiFetch_def conflict_store_def Set_add_def Set_delete_def
      btoa_throws_def Let_def)

text \<open>
  The merge and the encoding come before the \<^verbatim>\<open>try\<close>. An id with a character above
  U+00FF (here the Greek letter beta, bytes \<open>0xCE 0xB2\<close>) makes \<^verbatim>\<open>btoa\<close> throw: the
  exception escapes, nothing is sent, and the master list keeps the id of the session.
\<close>

lemma save_throws_after_merge:
  "thrown (saveProgressToGithub empty_store (session_state [] [[CHR 0xCE, CHR 0xB2]]))
      = Some ''InvalidCharacterError''
   \<and> sent (saveProgressToGithub empty_store (session_state [] [[CHR 0xCE, CHR 0xB2]])) = []
   \<and> masterDoneList (final (saveProgressToGithub empty_store (session_state [] [[CHR 0xCE, CHR 0xB2]])))
      = [[CHR 0xCE, CHR 0xB2]]"
  by (simp add: session_state_def saveProgressToGithub_def updateSyncStatus_def Set_add_def
      btoa_throws_def Let_def)

text \<open>
  Claim C4, at an input where the code departs from it. The version \<open>v0\<close> is known
  from an earlier load and the store answers Not Found. Load empties the master list and
  reports the condition without the error flag, but leaves the version \<open>v0\<close> in place.
\<close>

theorem load_not_found_keeps_token:
  "githubFileSha (final (loadProgressFromGithub empty_store (session_state [''Maths_P1_2019''] [])))
      = Some ''v0''
   \<and> masterDoneList (final (loadProgressFromGithub empty_store (session_state [''Maths_P1_2019''] [])))
      = []
   \<and> syncStatus (final (loadProgressFromGithub empty_store (session_state [''Maths_P1_2019''] [])))
      = (ProgressNotFound, False)"
  by (simp add: session_state_def loadProgressFromGithub_def load_catch_def updateSyncStatus_def
      githubApiFetch_def empty_store_def new_Set_def Let_def)

section \<open>Selection\<close>

subsection \<open>Random indices and \<^verbatim>\<open>splice\<close>\<close>

lemma floor_random_range:
  assumes "0 < n"
  shows "0 \<le> floor_random u n" and "floor_random u n < int n"
proof -
  have u: "0 \<le> Rep_random_value u" "Rep_random_value u < 1"
    using Rep_random_value[of u] by simp_all
  show "0 \<le> floor_random u n"
    using u(1) by (simp add: floor_random_def)
  have "Rep_random_value u * real n < real n"
    using u(2) assms by simp
  then show "floor_random u n < int n"
    by (simp add: floor_random_def floor_less_iff)
qed

lemma splice_in_range:
  assumes "0 \<le> i" and "i < int (length xs)"
  shows "splice xs i = ([xs ! nat i], take (nat i) xs @ drop (Suc (nat i)) xs)"
proof -
  have "nat i < length xs" using assms by simp
  then have "take 1 (drop (nat i) xs) = [xs ! nat i]"
    by (simp add: Cons_nth_drop_Suc[symmetric])
  with assms show ?thesis by (simp add: splice_def min_def Let_def)
qed

lemma mset_without_nth:
  assumes "n < length xs"
  shows "add_mset (xs ! n) (mset (take n xs @ drop (Suc n) xs)) = mset xs"
proof -
  have "xs = take n xs @ xs ! n # drop (Suc n) xs"
    using assms by (simp add: id_take_nth_drop[symmetric])
  then have "mset xs = mset (take n xs @ xs ! n # drop (Suc n) xs)" by simp
  then show ?thesis by simp
qed

lemma random_splice:
  assumes "xs \<noteq> []"
  obtains x rest where "splice xs (floor_random u (length xs)) = ([x], rest)"
    and "add_mset x (mset rest) = mset xs"
proof -
  let ?i = "floor_random u (length xs)"
  have r: "0 \<le> ?i" "?i < int (length xs)"
    using floor_random_range[of "length xs" u] assms by simp_all
  then have n: "nat ?i < length xs" by simp
  show thesis
    using that[OF splice_in_range[OF r] mset_without_nth[OF n]] .
qed

lemma less_num_requested: "less_num c num \<longleftrightarrow> c < requested num"
  by (cases num) (auto simp: less_num_def requested_def)

lemma ge_num_Some: "ge_num c (Some n) \<longleftrightarrow> nat n \<le> c"
  by (auto simp: ge_num_def)

lemma random_loop_selects:
  "\<exists>qs. random_loop rnd num k available sel = sel @ map Some qs
        \<and> length qs = min (requested num - length sel) (length available)
        \<and> mset qs \<subseteq># mset available"
proof (induction rnd num k available sel rule: random_loop.induct)
  case (1 rnd num k available sel)
  show ?case
  proof (cases "less_num (length sel) num \<and> length available > 0")
    case False
    then have "random_loop rnd num k available sel = sel"
      by (subst random_loop.simps) (simp only: if_False)
    moreover from False have "min (requested num - length sel) (length available) = 0"
      by (auto simp: less_num_requested)
    ultimately show ?thesis by simp
  next
    case True
    then have ne: "available \<noteq> []" and lt: "length sel < requested num"
      by (auto simp: less_num_requested)
    obtain x rest where sp: "splice available (floor_random (rnd k) (length available)) = ([x], rest)"
      and ms: "add_mset x (mset rest) = mset available"
      using random_splice[OF ne] by blast
    have step: "random_loop rnd num k available sel
                  = random_loop rnd num (k + 1) rest (sel @ [Some x])"
      by (subst random_loop.simps) (simp only: True simp_thms if_True Let_def sp prod.case first_def list.case)
    obtain qs where qs: "random_loop rnd num (k + 1) rest (sel @ [first [x]])
                           = (sel @ [first [x]]) @ map Some qs"
      and len: "length qs = min (requested num - length (sel @ [first [x]])) (length rest)"
      and sub: "mset qs \<subseteq># mset rest"
      using "1.IH"[OF True refl sp[symmetric]] by blast
    have lr: "Suc (length rest) = length available"
      using ms by (metis size_add_mset size_mset)
    have "random_loop rnd num k available sel = sel @ map Some (x # qs)"
      using step qs by (simp add: first_def)
    moreover have "length (x # qs) = min (requested num - length sel) (length available)"
      using len lt lr by simp
    moreover have "mset (x # qs) \<subseteq># mset available"
      using sub ms by (metis mset.simps(2) mset_subset_eq_add_mset_cancel)
    ultimately show ?thesis by blast
  qed
qed

subsection \<open>Buckets and the rotation\<close>

lemma indexOf_member:
  assumes "x \<in> set xs"
  shows "\<exists>n<length xs. indexOf xs x = int n \<and> take n xs @ drop (Suc n) xs = remove1 x xs"
  using assms
proof (induction xs)
  case Nil
  then show ?case by simp
next
  case (Cons y ys)
  show ?case
  proof (cases "y = x")
    case True
    then have "indexOf (y # ys) x = int 0 \<and> take 0 (y # ys) @ drop (Suc 0) (y # ys) = remove1 x (y # ys)"
      by simp
    then show ?thesis by blast
  next
    case False
    with Cons.prems have "x \<in> set ys" by simp
    then obtain n where n: "n < length ys" "indexOf ys x = int n"
      "take n ys @ drop (Suc n) ys = remove1 x ys"
      using Cons.IH by blast
    have "indexOf (y # ys) x = int (Suc n)"
      using False n(2) by (simp add: Let_def)
    moreover have "take (Suc n) (y # ys) @ drop (Suc (Suc n)) (y # ys) = remove1 x (y # ys)"
      using False n(3) by simp
    ultimately show ?thesis using n(1) by auto
  qed
qed

lemma splice_indexOf:
  assumes "x \<in> set xs"
  shows "snd (splice xs (indexOf xs x)) = remove1 x xs"
proof -
  obtain n where n: "n < length xs" "indexOf xs x = int n"
    "take n xs @ drop (Suc n) xs = remove1 x xs"
    using indexOf_member[OF assms] by blast
  have "splice xs (int n) = ([xs ! nat (int n)], take (nat (int n)) xs @ drop (Suc (nat (int n))) xs)"
    by (rule splice_in_range) (use n(1) in simp_all)
  with n show ?thesis by simp
qed

lemma set_bucket_simps:
  "set_bucket k v [] = []"
  "set_bucket k v ((k0, v0) # obj) = (k0, if k0 = k then v else v0) # set_bucket k v obj"
  by (simp_all add: set_bucket_def)

lemma set_bucket_keys: "map fst (set_bucket k v obj) = map fst obj"
proof (induction obj)
  case Nil
  show ?case by (simp add: set_bucket_simps)
next
  case (Cons e obj)
  then show ?case by (cases e) (simp add: set_bucket_simps)
qed

lemma set_bucket_absent: "k \<notin> fst ` set obj \<Longrightarrow> set_bucket k v obj = obj"
proof (induction obj)
  case Nil
  show ?case by (simp add: set_bucket_simps)
next
  case (Cons e obj)
  then show ?case by (cases e) (auto simp: set_bucket_simps)
qed

lemma map_of_set_bucket:
  "map_of (set_bucket k v obj) k' = (if k' = k \<and> k \<in> fst ` set obj then Some v else map_of obj k')"
proof (induction obj arbitrary: k')
  case Nil
  show ?case by (simp add: set_bucket_simps)
next
  case (Cons e obj)
  obtain k0 v0 where e: "e = (k0, v0)" by (cases e)
  show ?case
  proof (cases "k0 = k")
    case True
    then show ?thesis unfolding e by (simp add: set_bucket_simps Cons.IH)
  next
    case False
    then show ?thesis unfolding e by (simp add: set_bucket_simps Cons.IH)
  qed
qed

lemma mset_set_bucket:
  assumes "distinct (map fst obj)" and "map_of obj k = Some b"
  shows "mset (concat (map snd (set_bucket k b' obj))) + mset b
           = mset (concat (map snd obj)) + mset b'"
  using assms
proof (induction obj)
  case Nil
  then show ?case by simp
next
  case (Cons e obj)
  obtain k0 v0 where e: "e = (k0, v0)" by (cases e)
  show ?case
  proof (cases "k0 = k")
    case True
    with Cons.prems e have v0: "v0 = b" and "k \<notin> fst ` set obj" by auto
    then have "set_bucket k b' obj = obj" by (simp add: set_bucket_absent)
    then have "set_bucket k b' (e # obj) = (k, b') # obj"
      using e True by (simp add: set_bucket_simps)
    then show ?thesis using e v0 by simp
  next
    case False
    with Cons.prems e have "distinct (map fst obj)" "map_of obj k = Some b" by auto
    then have IH: "mset (concat (map snd (set_bucket k b' obj))) + mset b
                     = mset (concat (map snd obj)) + mset b'"
      by (rule Cons.IH)
    have "set_bucket k b' (e # obj) = e # set_bucket k b' obj"
      using e False by (simp add: set_bucket_simps)
    then show ?thesis using IH by (simp add: add.assoc)
  qed
qed

lemma map_of_in_keys: "map_of obj k = Some v \<Longrightarrow> k \<in> fst ` set obj"
  by (metis domI dom_map_of_conv_image_fst)

lemma rotation_body_inv:
  assumes inv: "rotation_inv pool st" and m: "m \<in> set (moduleKeys st)"
  shows "\<exists>st'. rotation_body rnd m st = Inr st' \<and> rotation_inv pool st'
            \<and> count' st' = Suc (count' st)"
proof -
  let ?qbm = "questionsByModule st"
  have dk: "distinct (map fst ?qbm)" and dkeys: "distinct (moduleKeys st)"
    and keys: "set (moduleKeys st) = {m. \<exists>b. map_of ?qbm m = Some b \<and> b \<noteq> []}"
    and cnt: "count' st = length (selected st)"
    using inv by (simp_all add: rotation_inv_def)
  obtain qs where qs: "selected st = map Some qs"
    and total: "mset qs + mset (concat (map snd ?qbm)) = mset pool"
    using inv unfolding rotation_inv_def by blast
  obtain bucket where b: "map_of ?qbm m = Some bucket" and bne: "bucket \<noteq> []"
    using m keys by auto
  obtain x rest
    where sp: "splice bucket (floor_random (rnd (draws st)) (length bucket)) = ([x], rest)"
      and ms: "add_mset x (mset rest) = mset bucket"
    using random_splice[OF bne] by blast
  define keys' where "keys' = (if rest = [] then remove1 m (moduleKeys st) else moduleKeys st)"
  define st' where "st' = st\<lparr>questionsByModule := set_bucket m rest ?qbm,
      draws := draws st + 1, selected := selected st @ [Some x], count' := count' st + 1,
      moduleKeys := keys'\<rparr>"
  have body: "rotation_body rnd m st = Inr st'"
    by (simp add: rotation_body_def b sp first_def Let_def splice_indexOf[OF m] st'_def keys'_def)
  have f: "questionsByModule st' = set_bucket m rest ?qbm" "moduleKeys st' = keys'"
    "selected st' = map Some (qs @ [x])" "count' st' = Suc (count' st)"
    by (simp_all add: st'_def qs)
  have min: "m \<in> fst ` set ?qbm" using b by (rule map_of_in_keys)
  have lookup: "\<And>k. map_of (set_bucket m rest ?qbm) k = (if k = m then Some rest else map_of ?qbm k)"
    using min by (simp add: map_of_set_bucket)
  have i1: "distinct (map fst (questionsByModule st'))"
    using dk by (simp add: f set_bucket_keys)
  have i2: "distinct (moduleKeys st')"
    using dkeys by (simp add: f keys'_def)
  have live: "{k. \<exists>b. map_of (questionsByModule st') k = Some b \<and> b \<noteq> []}
                = {k. \<exists>b. (if k = m then Some rest else map_of ?qbm k) = Some b \<and> b \<noteq> []}"
    by (simp only: f lookup)
  have i3: "set (moduleKeys st') = {k. \<exists>b. map_of (questionsByModule st') k = Some b \<and> b \<noteq> []}"
  proof (cases "rest = []")
    case True
    have "set keys' = set (moduleKeys st) - {m}"
      using dkeys True by (simp add: keys'_def)
    also have "\<dots> = {k. \<exists>b. (if k = m then Some rest else map_of ?qbm k) = Some b \<and> b \<noteq> []}"
      unfolding keys using True by auto
    finally show ?thesis unfolding live f(2) .
  next
    case False
    have "set keys' = set (moduleKeys st)"
      using False by (simp add: keys'_def)
    also have "\<dots> = {k. \<exists>b. (if k = m then Some rest else map_of ?qbm k) = Some b \<and> b \<noteq> []}"
      unfolding keys using False b bne by auto
    finally show ?thesis unfolding live f(2) .
  qed
  have "mset (concat (map snd (set_bucket m rest ?qbm))) + mset bucket
          = mset (concat (map snd ?qbm)) + mset rest"
    using mset_set_bucket[OF dk b] .
  then have "add_mset x (mset (concat (map snd (set_bucket m rest ?qbm))))
               = mset (concat (map snd ?qbm))"
    unfolding ms[symmetric] by simp
  then have "mset qs + add_mset x (mset (concat (map snd (set_bucket m rest ?qbm)))) = mset pool"
    using total by simp
  then have i4: "mset (qs @ [x]) + mset (concat (map snd (questionsByModule st'))) = mset pool"
    by (simp add: f)
  have i5: "count' st' = length (selected st')"
    using cnt by (simp add: f qs)
  have "rotation_inv pool st'"
    unfolding rotation_inv_def using i1 i2 i3 i4 i5 f(3) by blast
  with body f(4) show ?thesis by blast
qed

lemma for_moduleKeys_inv:
  assumes "rotation_inv pool st"
  shows "\<exists>st'. for_moduleKeys rnd num i st = Inr st' \<and> rotation_inv pool st'
            \<and> count' st \<le> count' st'
            \<and> (\<forall>n. num = Some n \<longrightarrow> count' st \<le> nat n \<longrightarrow> count' st' \<le> nat n)
            \<and> (i < length (moduleKeys st) \<longrightarrow> \<not> ge_num (count' st) num \<longrightarrow> count' st < count' st')"
  using assms
proof (induction rnd num i st rule: for_moduleKeys.induct)
  case (1 rnd num i st)
  show ?case
  proof (cases "i < length (moduleKeys st) \<and> \<not> ge_num (count' st) num")
    case False
    then have "for_moduleKeys rnd num i st = Inr st"
      by (subst for_moduleKeys.simps) auto
    with "1.prems" False show ?thesis by auto
  next
    case True
    then have i: "i < length (moduleKeys st)" and go: "\<not> ge_num (count' st) num" by simp_all
    from i have "moduleKeys st ! i \<in> set (moduleKeys st)" by simp
    then obtain st1 where body: "rotation_body rnd (moduleKeys st ! i) st = Inr st1"
      and inv1: "rotation_inv pool st1" and c1: "count' st1 = Suc (count' st)"
      using rotation_body_inv[OF "1.prems"] by blast
    obtain st' where run: "for_moduleKeys rnd num (i + 1) st1 = Inr st'"
      and inv': "rotation_inv pool st'" and mono: "count' st1 \<le> count' st'"
      and bound: "\<forall>n. num = Some n \<longrightarrow> count' st1 \<le> nat n \<longrightarrow> count' st' \<le> nat n"
      using "1.IH"[OF i go body inv1] by blast
    have "for_moduleKeys rnd num i st = for_moduleKeys rnd num (i + 1) st1"
      by (subst for_moduleKeys.simps) (simp add: i go body)
    with run have r: "for_moduleKeys rnd num i st = Inr st'" by simp
    have b: "\<forall>n. num = Some n \<longrightarrow> count' st \<le> nat n \<longrightarrow> count' st' \<le> nat n"
    proof (intro allI impI)
      fix n assume n: "num = Some n" and "count' st \<le> nat n"
      from go n have "count' st < nat n" by (simp add: ge_num_Some)
      with c1 have "count' st1 \<le> nat n" by simp
      with bound n show "count' st' \<le> nat n" by blast
    qed
    from mono c1 have "count' st < count' st'" by simp
    with r inv' b show ?thesis by auto
  qed
qed



lemma while_count_inv:
  assumes "while_count rnd num available st = Some r"
  shows "rotation_inv pool st \<longrightarrow> (\<exists>st'. r = Inr st' \<and> rotation_inv pool st')"
proof (rule while_count.raw_induct[where P = "\<lambda>rnd num available st r.
          rotation_inv pool st \<longrightarrow> (\<exists>st'. r = Inr st' \<and> rotation_inv pool st')", OF _ assms])
  fix f :: "(nat \<Rightarrow> random_value) \<Rightarrow> int option \<Rightarrow> question list \<Rightarrow> rotation \<Rightarrow> (string + rotation) option"
    and rnd num available st r
  assume IH: "\<And>rnd num available st r. f rnd num available st = Some r \<Longrightarrow>
                rotation_inv pool st \<longrightarrow> (\<exists>st'. r = Inr st' \<and> rotation_inv pool st')"
    and eq: "(if less_num (count' st) num \<and> 0 < length available
              then case for_moduleKeys rnd num 0 st of Inl e \<Rightarrow> Some (Inl e)
                   | Inr st' \<Rightarrow> f rnd num available st'
              else Some (Inr st)) = Some r"
  show "rotation_inv pool st \<longrightarrow> (\<exists>st'. r = Inr st' \<and> rotation_inv pool st')"
  proof
    assume inv: "rotation_inv pool st"
    show "\<exists>st'. r = Inr st' \<and> rotation_inv pool st'"
    proof (cases "less_num (count' st) num \<and> 0 < length available")
      case False
      with eq have "r = Inr st" by (simp only: if_False option.inject)
      with inv show ?thesis by simp
    next
      case True
      obtain st1 where pass: "for_moduleKeys rnd num 0 st = Inr st1"
        and inv1: "rotation_inv pool st1"
        using for_moduleKeys_inv[OF inv, of rnd num 0] by blast
      from eq have "f rnd num available st1 = Some r"
        by (simp only: True simp_thms if_True pass sum.case)
      from IH[OF this] inv1 show ?thesis by blast
    qed
  qed
qed


lemma set_bucket_values: "snd ` set (set_bucket k v obj) \<subseteq> insert v (snd ` set obj)"
proof (induction obj)
  case Nil
  show ?case by (simp add: set_bucket_simps)
next
  case (Cons e obj)
  then show ?case by (cases e) (auto simp: set_bucket_simps)
qed

lemma group_step_grouped:
  assumes g: "grouped acc" and step: "group_step acc q = Inr acc'"
  shows "grouped acc' \<and> mset (concat (map snd acc')) = add_mset q (mset (concat (map snd acc)))"
proof (cases "map_of acc (module q)")
  case None
  with step have acc': "acc' = acc @ [(module q, [q])]"
    by (simp add: group_step_def split: if_splits)
  from None have "module q \<notin> fst ` set acc" by (simp add: map_of_eq_None_iff)
  with g show ?thesis unfolding acc' grouped_def by auto
next
  case (Some bucket)
  with step have acc': "acc' = set_bucket (module q) (bucket @ [q]) acc"
    by (simp add: group_step_def)
  have d: "distinct (map fst acc)" using g by (simp add: grouped_def)
  have "mset (concat (map snd acc')) + mset bucket
          = mset (concat (map snd acc)) + mset (bucket @ [q])"
    unfolding acc' using mset_set_bucket[OF d Some] .
  then have m: "mset (concat (map snd acc')) = add_mset q (mset (concat (map snd acc)))"
    by simp
  have "[] \<notin> snd ` set acc'"
    using set_bucket_values[of "module q" "bucket @ [q]" acc] g
    unfolding acc' grouped_def by auto
  with d m show ?thesis unfolding grouped_def acc' by (simp add: set_bucket_keys)
qed

lemma group_step_defined:
  assumes "module q \<notin> set Object_prototype"
  shows "\<exists>acc'. group_step acc q = Inr acc'"
  using assms by (cases "map_of acc (module q)") (simp_all add: group_step_def)

lemma reduce_groups_grouped:
  assumes "grouped acc" and "reduce_groups acc qs = Inr qbm"
  shows "grouped qbm \<and> mset (concat (map snd qbm)) = mset (concat (map snd acc)) + mset qs"
  using assms
proof (induction qs arbitrary: acc)
  case Nil
  then show ?case by simp
next
  case (Cons q qs)
  from Cons.prems(2) obtain acc' where step: "group_step acc q = Inr acc'"
    and rest: "reduce_groups acc' qs = Inr qbm"
    by (cases "group_step acc q") simp_all
  from group_step_grouped[OF Cons.prems(1) step]
  have g': "grouped acc'"
    and m': "mset (concat (map snd acc')) = add_mset q (mset (concat (map snd acc)))"
    by simp_all
  from Cons.IH[OF g' rest] m' show ?case by simp
qed

lemma reduce_groups_defined:
  assumes "\<forall>q\<in>set qs. module q \<notin> set Object_prototype"
  shows "\<exists>qbm. reduce_groups acc qs = Inr qbm"
  using assms
proof (induction qs arbitrary: acc)
  case Nil
  show ?case by simp
next
  case (Cons q qs)
  then obtain acc' where "group_step acc q = Inr acc'"
    using group_step_defined[of q acc] by auto
  with Cons show ?case by simp
qed

lemma mset_own_entries: "mset (own_entries obj) = mset obj"
proof -
  have "mset (own_entries obj)
          = filter_mset (\<lambda>e. array_index (fst e) \<noteq> None) (mset obj)
            + filter_mset (\<lambda>e. \<not> array_index (fst e) \<noteq> None) (mset obj)"
    by (simp add: own_entries_def)
  then show ?thesis by (simp only: multiset_partition[symmetric])
qed

lemma Object_keys_perm: "mset (Object_keys obj) = mset (map fst obj)"
  by (simp add: Object_keys_def mset_own_entries)

lemma initial_rotation_inv:
  assumes g: "grouped qbm" and total: "mset (concat (map snd qbm)) = mset pool"
  shows "rotation_inv pool (initial_rotation qbm)"
proof -
  have d: "distinct (map fst qbm)" and ne: "[] \<notin> snd ` set qbm"
    using g by (simp_all add: grouped_def)
  have dk: "distinct (Object_keys qbm)"
    using d Object_keys_perm[of qbm] by (metis mset_eq_imp_distinct_iff)
  have "set (Object_keys qbm) = set (map fst qbm)"
    using Object_keys_perm[of qbm] by (rule mset_eq_setD)
  also have "\<dots> = {m. \<exists>b. map_of qbm m = Some b \<and> b \<noteq> []}"
  proof (intro set_eqI iffI)
    fix m assume "m \<in> set (map fst qbm)"
    then obtain b where mb: "(m, b) \<in> set qbm" by auto
    with d have "map_of qbm m = Some b" by simp
    moreover from mb ne have "b \<noteq> []" by force
    ultimately show "m \<in> {m. \<exists>b. map_of qbm m = Some b \<and> b \<noteq> []}" by blast
  next
    fix m assume "m \<in> {m. \<exists>b. map_of qbm m = Some b \<and> b \<noteq> []}"
    then obtain b where "map_of qbm m = Some b" by blast
    then have "m \<in> fst ` set qbm" by (rule map_of_in_keys)
    then show "m \<in> set (map fst qbm)" by simp
  qed
  finally have keys: "set (Object_keys qbm) = {m. \<exists>b. map_of qbm m = Some b \<and> b \<noteq> []}" .
  have "[] = map Some ([] :: question list) \<and> mset ([] :: question list) + mset (concat (map snd qbm)) = mset pool"
    using total by simp
  then show ?thesis
    unfolding rotation_inv_def initial_rotation_def using d dk keys by auto
qed

lemma while_count_stuck:
  assumes "moduleKeys st = []" and "less_num (count' st) num" and "available \<noteq> []"
  shows "while_count rnd num available st = None"
proof (rule ccontr)
  assume "while_count rnd num available st \<noteq> None"
  then obtain r where r: "while_count rnd num available st = Some r" by auto
  have "\<not> (moduleKeys st = [] \<and> less_num (count' st) num \<and> available \<noteq> [])"
  proof (rule while_count.raw_induct[where P = "\<lambda>rnd num available st r.
            \<not> (moduleKeys st = [] \<and> less_num (count' st) num \<and> available \<noteq> [])", OF _ r])
    fix f :: "(nat \<Rightarrow> random_value) \<Rightarrow> int option \<Rightarrow> question list \<Rightarrow> rotation \<Rightarrow> (string + rotation) option"
      and rnd num available st r
    assume IH: "\<And>rnd num available st r. f rnd num available st = Some r \<Longrightarrow>
                  \<not> (moduleKeys st = [] \<and> less_num (count' st) num \<and> available \<noteq> [])"
      and eq: "(if less_num (count' st) num \<and> 0 < length available
                then case for_moduleKeys rnd num 0 st of Inl e \<Rightarrow> Some (Inl e)
                     | Inr st' \<Rightarrow> f rnd num available st'
                else Some (Inr st)) = Some r"
    show "\<not> (moduleKeys st = [] \<and> less_num (count' st) num \<and> available \<noteq> [])"
    proof
      assume stuck: "moduleKeys st = [] \<and> less_num (count' st) num \<and> available \<noteq> []"
      then have pass: "for_moduleKeys rnd num 0 st = Inr st"
        by (subst for_moduleKeys.simps) simp
      from stuck have guard: "less_num (count' st) num \<and> 0 < length available" by simp
      from eq have "f rnd num available st = Some r"
        by (simp only: guard simp_thms if_True pass sum.case)
      from IH[OF this] stuck show False by blast
    qed
  qed
  with assms show False by blast
qed

lemma rotation_inv_count:
  assumes "rotation_inv pool st"
  shows "count' st \<le> length pool"
proof -
  obtain qs where qs: "selected st = map Some qs"
    and total: "mset qs + mset (concat (map snd (questionsByModule st))) = mset pool"
    using assms unfolding rotation_inv_def by blast
  have "mset qs \<subseteq># mset pool" using total by (metis mset_subset_eq_add_left)
  then have "length qs \<le> length pool" by (metis size_mset size_mset_mono)
  then show ?thesis using assms qs by (simp add: rotation_inv_def)
qed

lemma while_count_diverges:
  assumes "rotation_inv pool st" and "length pool < requested num" and "available \<noteq> []"
  shows "while_count rnd num available st = None"
  using assms(1)
proof (induction "length pool - count' st" arbitrary: st rule: less_induct)
  case less
  have c: "count' st \<le> length pool" using less.prems by (rule rotation_inv_count)
  with assms(2) have lt: "less_num (count' st) num" by (simp add: less_num_requested)
  show ?case
  proof (cases "moduleKeys st = []")
    case True
    then show ?thesis using lt assms(3) by (rule while_count_stuck)
  next
    case False
    obtain n where n: "num = Some n" "requested num = nat n"
      using assms(2) by (cases num) (auto simp: requested_def)
    have go: "\<not> ge_num (count' st) num" using lt n by (simp add: ge_num_Some less_num_requested)
    obtain st1 where pass: "for_moduleKeys rnd num 0 st = Inr st1"
      and inv1: "rotation_inv pool st1"
      and grow: "0 < length (moduleKeys st) \<longrightarrow> \<not> ge_num (count' st) num \<longrightarrow> count' st < count' st1"
      using for_moduleKeys_inv[OF less.prems, of rnd num 0] by blast
    have c1: "count' st < count' st1" using grow False go by simp
    moreover have "count' st1 \<le> length pool" using inv1 by (rule rotation_inv_count)
    ultimately have "length pool - count' st1 < length pool - count' st" by arith
    then have "while_count rnd num available st1 = None"
      using less.hyps[OF _ inv1] by blast
    moreover have "while_count rnd num available st = while_count rnd num available st1"
      by (subst while_count.simps) (simp add: lt assms(3) pass)
    ultimately show ?thesis by simp
  qed
qed

subsection \<open>The selection as a whole\<close>





lemma not_homogeneous_selects:
  assumes "\<not> (mode = ''homogeneous'' \<and> chosen = ''all'')" and "pool \<noteq> []"
  shows "select_questions rnd num mode chosen pool = Some (Inr (random_loop rnd num 0 pool []))"
proof -
  have "(if mode = ''homogeneous'' \<and> chosen = ''all'' then a else b) = b" for a b :: "(string + question option list) option"
    using assms(1) by (rule if_not_P)
  with assms(2) show ?thesis unfolding select_questions_def by simp
qed

lemma array_index_names:
  "array_index ''Algebra'' = None" "array_index ''Botany'' = None"
  "array_index ''Chemistry'' = None" "array_index ''Paper1'' = None"
  "array_index ''Linear_Algebra'' = None" "array_index ''Linear'' = None"
  "array_index ''P1'' = None" "array_index ''Algebra_P1'' = None"
  "array_index ''Chem'' = None" "array_index ''Bio'' = None"
  by (simp_all add: array_index_def)

lemma array_index_numerals:
  "array_index ''7'' = Some 7" "array_index ''10'' = Some 10" "array_index ''07'' = None"
  "array_index ''4294967294'' = Some 4294967294" "array_index ''4294967295'' = None"
  by (simp_all add: array_index_def)

lemma own_entries_order:
  "own_entries [(''Paper1'', a), (''10'', b), (''7'', c)] = [(''7'', c), (''10'', b), (''Paper1'', a)]"
  by (simp add: own_entries_def array_index_names array_index_numerals)

lemma floor_random_lowest: "floor_random (always lowest k) n = 0"
  by (simp add: floor_random_def always_def lowest.rep_eq)

lemma floor_random_middle: "floor_random (always middle k) n = int (n div 2)"
proof -
  have "\<lfloor>real n / 2\<rfloor> = int (n div 2)"
    by (metis floor_divide_of_nat_eq of_nat_numeral)
  then show ?thesis by (simp add: floor_random_def always_def middle.rep_eq)
qed

lemma floor_random_one: "floor_random u (Suc 0) = 0"
  using floor_random_range[of "Suc 0" u] by simp

lemma floor_random_two: "floor_random u (Suc (Suc 0)) = 0 \<or> floor_random u (Suc (Suc 0)) = 1"
  using floor_random_range[of "Suc (Suc 0)" u] by auto

lemmas catalog_eval =
  flatten_def own_entries_def array_index_names uneven_catalog_def even_catalog_def
  colliding_catalog_def

lemmas rotation_eval =
  select_questions_def group_step_def set_bucket_def Object_prototype_def initial_rotation_def
  Object_keys_def own_entries_def array_index_names while_count.simps for_moduleKeys.simps
  rotation_body_def floor_random_lowest splice_def first_def less_num_def
  ge_num_def Let_def

lemmas rotation_steps =
  select_questions_def group_step_def set_bucket_def Object_prototype_def initial_rotation_def
  Object_keys_def own_entries_def array_index_names while_count.simps for_moduleKeys.simps
  rotation_body_def floor_random_one splice_def first_def less_num_def
  ge_num_def Let_def

lemmas random_eval =
  select_questions_def random_loop.simps floor_random_lowest splice_def first_def less_num_def

lemma flatten_uneven:
  "flatten uneven_catalog =
     [\<lparr>id' = ''Algebra_Paper1_2019'', module = ''Algebra'', paper = ''Paper1'', year = ''2019''\<rparr>,
      \<lparr>id' = ''Algebra_Paper1_2020'', module = ''Algebra'', paper = ''Paper1'', year = ''2020''\<rparr>,
      \<lparr>id' = ''Botany_Paper1_2019'', module = ''Botany'', paper = ''Paper1'', year = ''2019''\<rparr>,
      \<lparr>id' = ''Chemistry_Paper1_2019'', module = ''Chemistry'', paper = ''Paper1'', year = ''2019''\<rparr>,
      \<lparr>id' = ''Chemistry_Paper1_2020'', module = ''Chemistry'', paper = ''Paper1'', year = ''2020''\<rparr>]"
  by (simp add: catalog_eval)

lemma uneven_names: "\<forall>q\<in>set (flatten uneven_catalog). module q \<notin> set Object_prototype"
  by (simp add: flatten_uneven Object_prototype_def)

lemma even_buckets_two_one_one:
  "modules_of (select_questions (always lowest) (Some 4) ''homogeneous'' ''all'' (flatten even_catalog))
     = [''Algebra'', ''Botany'', ''Chemistry'', ''Algebra'']"
  by (simp add: catalog_eval rotation_eval modules_of_def)

lemma select_questions_from_pool:
  assumes "select_questions rnd num mode chosen pool = Some (Inr sel)"
  shows "\<exists>qs. sel = map Some qs \<and> mset qs \<subseteq># mset pool"
proof (cases "pool = []")
  case True
  with assms have "sel = []" by (simp add: select_questions_def)
  then show ?thesis by simp
next
  case ne: False
  show ?thesis
  proof (cases "mode = ''homogeneous'' \<and> chosen = ''all''")
    case False
    with assms ne have "sel = random_loop rnd num 0 pool []"
      using not_homogeneous_selects[OF False ne, of rnd num] by simp
    then show ?thesis using random_loop_selects[of rnd num 0 pool "[]"] by auto
  next
    case True
    with assms ne
    have run: "(case reduce_groups [] pool of
                  Inl e \<Rightarrow> Some (Inl e)
                | Inr qbm \<Rightarrow>
                    (case while_count rnd num pool (initial_rotation qbm) of
                       None \<Rightarrow> None
                     | Some (Inl e) \<Rightarrow> Some (Inl e)
                     | Some (Inr st) \<Rightarrow> Some (Inr (selected st)))) = Some (Inr sel)"
      by (simp add: select_questions_def)
    then obtain qbm where groups: "reduce_groups [] pool = Inr qbm"
      by (cases "reduce_groups [] pool") simp_all
    with run obtain r where w: "while_count rnd num pool (initial_rotation qbm) = Some r"
      by (cases "while_count rnd num pool (initial_rotation qbm)") simp_all
    have "grouped []" by (simp add: grouped_def)
    from reduce_groups_grouped[OF this groups]
    have "grouped qbm" and "mset (concat (map snd qbm)) = mset pool" by simp_all
    then have "rotation_inv pool (initial_rotation qbm)" by (rule initial_rotation_inv)
    with while_count_inv[OF w, of pool]
    obtain st' where r: "r = Inr st'" and inv: "rotation_inv pool st'" by blast
    from run groups w r have sel: "sel = selected st'" by simp
    obtain qs where "selected st' = map Some qs"
      and "mset qs + mset (concat (map snd (questionsByModule st'))) = mset pool"
      using inv unfolding rotation_inv_def by blast
    then have "sel = map Some qs \<and> mset qs \<subseteq># mset pool"
      using sel by (metis mset_subset_eq_add_left)
    then show ?thesis by blast
  qed
qed

lemma available_questions_not_done:
  "set (available_questions ui st xs) \<subseteq> {q \<in> set xs. id' q \<notin> set (masterDoneList st)}"
  by (auto simp: available_questions_def Set_has_def Let_def)

lemma generateQuestions_loaded:
  assumes "allQuestionsData st = Some modules"
  shows "generateQuestions rnd ui st =
           (case select_questions rnd (numQuestions ui)
                   (if modeRandom ui then ''random'' else ''homogeneous'')
                   (moduleFilter ui) (available_questions ui st (flatten modules)) of
              None \<Rightarrow> None
            | Some (Inl e) \<Rightarrow> Some (Threw e)
            | Some (Inr selected') \<Rightarrow> Some (Rendered selected'))"
  using assms by (simp add: generateQuestions_def getFlattenedQuestions_def)

lemma request_fields:
  "numQuestions (fully_random_request n) = Some n" "modeRandom (fully_random_request n)"
  "moduleFilter (fully_random_request n) = ''all''"
  "numQuestions (homogeneous_request n) = Some n" "\<not> modeRandom (homogeneous_request n)"
  "moduleFilter (homogeneous_request n) = ''all''"
  "allQuestionsData (catalog_state modules master) = Some modules"
  "masterDoneList (catalog_state modules master) = master"
  by (simp_all add: fully_random_request_def homogeneous_request_def catalog_state_def)

text \<open>A module called \<open>constructor\<close> makes the grouping throw, in the homogeneous mode
  only.\<close>

lemma prototype_module_throws:
  "select_questions rnd (Some 1) ''homogeneous'' ''all''
     [\<lparr>id' = ''constructor_P1_2020'', module = ''constructor'', paper = ''P1'', year = ''2020''\<rparr>]
     = Some (Inl ''acc[q.module].push is not a function'')"
  by (simp add: select_questions_def group_step_def Object_prototype_def)





subsection \<open>The claims about the selection\<close>

text \<open>
  Claim C8. The flattened catalog is a function of the catalog alone. Its ids are the
  module, the paper and the year joined by underscores, in the order in which the
  modules, the papers of a module and the years of a paper are enumerated; the catalog
  of the example flattens to the ids \<open>Chem_P1_2020\<close> and \<open>Bio_P1_2019\<close>.
\<close>

theorem flatten_ids:
  "map id' (flatten modules) =
     concat (map (\<lambda>(moduleName, papers).
       concat (map (\<lambda>(paperName, triposes).
         map (\<lambda>year. moduleName @ ''_'' @ paperName @ ''_'' @ year) triposes)
         (own_entries papers)))
       (own_entries modules))
   \<and> getFlattenedQuestions (st\<lparr>allQuestionsData := Some modules\<rparr>) = Inr (flatten modules)
   \<and> map id' (flatten [(''Chem'', [(''P1'', [''2020''])]), (''Bio'', [(''P1'', [''2019''])])])
       = [''Chem_P1_2020'', ''Bio_P1_2019'']"
proof -
  have "map id' (flatten modules) =
     concat (map (\<lambda>(moduleName, papers).
       concat (map (\<lambda>(paperName, triposes).
         map (\<lambda>year. moduleName @ ''_'' @ paperName @ ''_'' @ year) triposes)
         (own_entries papers)))
       (own_entries modules))"
    by (simp add: flatten_def map_concat comp_def case_prod_unfold)
  moreover have "getFlattenedQuestions (st\<lparr>allQuestionsData := Some modules\<rparr>) = Inr (flatten modules)"
    by (simp add: getFlattenedQuestions_def)
  moreover have "map id' (flatten [(''Chem'', [(''P1'', [''2020''])]), (''Bio'', [(''P1'', [''2019''])])])
       = [''Chem_P1_2020'', ''Bio_P1_2019'']"
    by (simp add: flatten_def own_entries_def array_index_names)
  ultimately show ?thesis by blast
qed




text \<open>
  Claim C3, where the code departs from it. In the homogeneous mode the \<^verbatim>\<open>while\<close> loop
  tests \<^verbatim>\<open>available.length > 0\<close>, and nothing in the loop removes an element of
  \<^verbatim>\<open>available\<close>. When more questions are requested than the pool holds, the buckets
  run empty, the rotation is empty, the count stays below the request, and the loop
  never ends.
\<close>

theorem homogeneous_selection_never_returns:
  assumes "pool \<noteq> []" and "\<forall>q\<in>set pool. module q \<notin> set Object_prototype"
    and "length pool < requested num"
  shows "select_questions rnd num ''homogeneous'' ''all'' pool = None"
proof -
  obtain qbm where groups: "reduce_groups [] pool = Inr qbm"
    using reduce_groups_defined[OF assms(2)] by blast
  have "grouped []" by (simp add: grouped_def)
  from reduce_groups_grouped[OF this groups]
  have "grouped qbm" and "mset (concat (map snd qbm)) = mset pool" by simp_all
  then have "rotation_inv pool (initial_rotation qbm)" by (rule initial_rotation_inv)
  then have "while_count rnd num pool (initial_rotation qbm) = None"
    using assms(3,1) by (rule while_count_diverges)
  with assms(1) groups show ?thesis by (simp add: select_questions_def)
qed

text \<open>Six questions requested from the five of the uneven catalog.\<close>

theorem homogeneous_selection_never_returns_witness:
  "flatten uneven_catalog \<noteq> []
   \<and> length (flatten uneven_catalog) < requested (Some 6)
   \<and> select_questions (always middle) (Some 6) ''homogeneous'' ''all'' (flatten uneven_catalog) = None
   \<and> generateQuestions (always middle) (homogeneous_request 6) (catalog_state uneven_catalog []) = None"
proof -
  have ne: "flatten uneven_catalog \<noteq> []" by (simp add: flatten_uneven)
  have more: "length (flatten uneven_catalog) < requested (Some 6)"
    by (simp add: flatten_uneven requested_def)
  have never: "select_questions (always middle) (Some 6) ''homogeneous'' ''all'' (flatten uneven_catalog) = None"
    using homogeneous_selection_never_returns[OF ne uneven_names more] .
  have "generateQuestions (always middle) (homogeneous_request 6) (catalog_state uneven_catalog [])
          = (case select_questions (always middle) (Some 6) ''homogeneous'' ''all'' (flatten uneven_catalog) of
               None \<Rightarrow> None
             | Some (Inl e) \<Rightarrow> Some (Threw e)
             | Some (Inr selected') \<Rightarrow> Some (Rendered selected'))"
    by (simp add: generateQuestions_def getFlattenedQuestions_def catalog_state_def
        homogeneous_request_def available_questions_def Set_has_def)
  with never ne more show ?thesis by simp
qed

text \<open>
  Claim C5, at an input where the code departs from it. The buckets are Algebra with two
  questions, Botany with one and Chemistry with two. Botany runs empty in the first pass
  and its key is removed while the iterator stands on it, so the iterator steps over
  Chemistry; Algebra runs empty in the second pass and Chemistry is stepped over again.
  After two complete passes Algebra has given two questions and Chemistry none, though its
  bucket held two questions all along; a selection of three is Algebra, Botany, Algebra.
  This is so whatever numbers \<^verbatim>\<open>Math.random\<close> returns.
\<close>

theorem rotation_skips_a_module:
  "map_sum id (drawn_from ''Algebra'') (after_passes rnd (Some 4) 2 (flatten uneven_catalog)) = Inr 2
   \<and> map_sum id (drawn_from ''Chemistry'') (after_passes rnd (Some 4) 2 (flatten uneven_catalog)) = Inr 0
   \<and> map_sum id (left_in ''Chemistry'') (after_passes rnd (Some 4) 0 (flatten uneven_catalog)) = Inr 2
   \<and> map_sum id (left_in ''Chemistry'') (after_passes rnd (Some 4) 2 (flatten uneven_catalog)) = Inr 2
   \<and> modules_of (select_questions rnd (Some 3) ''homogeneous'' ''all'' (flatten uneven_catalog))
       = [''Algebra'', ''Botany'', ''Algebra'']"
proof -
  consider (first) "floor_random (rnd 0) (Suc (Suc 0)) = 0"
    | (second) "floor_random (rnd 0) (Suc (Suc 0)) = 1"
    using floor_random_two[of "rnd 0"] by blast
  then show ?thesis
  proof cases
    case first
    then show ?thesis
      by (simp add: flatten_uneven rotation_steps after_passes_def drawn_from_def left_in_def
          modules_of_def numeral_2_eq_2)
  next
    case second
    then show ?thesis
      by (simp add: flatten_uneven rotation_steps after_passes_def drawn_from_def left_in_def
          modules_of_def numeral_2_eq_2)
  qed
qed

text \<open>
  Claim C9. Whatever the catalog, the master list, the filters, the count, the mode and
  the random numbers: when \<^verbatim>\<open>generateQuestions\<close> renders a selection, every entry of it
  is a question, and no question of it has an id that is in the master list.
\<close>

theorem completed_never_selected:
  assumes "generateQuestions rnd ui st = Some (Rendered sel)"
  shows "(\<forall>q. Some q \<in> set sel \<longrightarrow> id' q \<notin> set (masterDoneList st)) \<and> None \<notin> set sel"
proof -
  from assms obtain modules where data: "allQuestionsData st = Some modules"
    by (cases "allQuestionsData st") (simp_all add: generateQuestions_def)
  let ?available = "available_questions ui st (flatten modules)"
  let ?r = "select_questions rnd (numQuestions ui) (if modeRandom ui then ''random'' else ''homogeneous'')
              (moduleFilter ui) ?available"
  have gen: "generateQuestions rnd ui st =
               (case ?r of None \<Rightarrow> None | Some (Inl e) \<Rightarrow> Some (Threw e)
                | Some (Inr selected') \<Rightarrow> Some (Rendered selected'))"
    using data by (rule generateQuestions_loaded)
  from assms gen obtain o' where o': "?r = Some o'" by (cases ?r) simp_all
  with assms gen have "?r = Some (Inr sel)" by (cases o') simp_all
  then obtain qs where sel: "sel = map Some qs" and sub: "mset qs \<subseteq># mset ?available"
    using select_questions_from_pool by blast
  have "set qs \<subseteq> set ?available"
    using sub by (metis set_mset_mono set_mset_mset)
  with available_questions_not_done[of ui st "flatten modules"]
  have "\<forall>q\<in>set qs. id' q \<notin> set (masterDoneList st)" by blast
  with sel show ?thesis by auto
qed

text \<open>Two questions at random from the uneven catalog, with its first question completed.\<close>

theorem completed_never_selected_witness:
  "generateQuestions (always lowest) (fully_random_request 2)
       (catalog_state uneven_catalog [''Algebra_Paper1_2019''])
     = Some (Rendered
         [Some \<lparr>id' = ''Algebra_Paper1_2020'', module = ''Algebra'', paper = ''Paper1'', year = ''2020''\<rparr>,
          Some \<lparr>id' = ''Botany_Paper1_2019'', module = ''Botany'', paper = ''Paper1'', year = ''2019''\<rparr>])
   \<and> ''Algebra_Paper1_2020'' \<notin> set (masterDoneList (catalog_state uneven_catalog [''Algebra_Paper1_2019'']))
   \<and> ''Botany_Paper1_2019'' \<notin> set (masterDoneList (catalog_state uneven_catalog [''Algebra_Paper1_2019'']))"
proof -
  let ?st = "catalog_state uneven_catalog [''Algebra_Paper1_2019'']"
  let ?a = "\<lparr>id' = ''Algebra_Paper1_2020'', module = ''Algebra'', paper = ''Paper1'', year = ''2020''\<rparr>"
  let ?b = "\<lparr>id' = ''Botany_Paper1_2019'', module = ''Botany'', paper = ''Paper1'', year = ''2019''\<rparr>"
  have av: "available_questions (fully_random_request 2) ?st (flatten uneven_catalog)
              = tl (flatten uneven_catalog)"
    by (simp add: flatten_uneven available_questions_def fully_random_request_def catalog_state_def
        Set_has_def)
  have sel: "select_questions (always lowest) (Some 2) ''random'' ''all'' (tl (flatten uneven_catalog))
               = Some (Inr [Some ?a, Some ?b])"
    by (simp add: flatten_uneven random_eval)
  have run: "generateQuestions (always lowest) (fully_random_request 2) ?st
               = Some (Rendered [Some ?a, Some ?b])"
    by (simp add: generateQuestions_loaded[OF request_fields(7)] request_fields(1,2,3) av sel)
  from completed_never_selected[OF run] run show ?thesis by (simp add: request_fields)
qed

end
